theory Spec2Isabelle
  imports Complex_Main
begin

section \<open>Numbers, signals and constants\<close>

text \<open>
  The scene is written in TypeScript and GLSL. A JavaScript \<^verbatim>\<open>number\<close> and a GLSL
  \<^verbatim>\<open>float\<close> are modelled as exact reals: every formula below is the formula of the
  source with rounding left out. \<^verbatim>\<open>Math.random()\<close> is a supply \<open>rng :: nat \<Rightarrow> real\<close>
  read through a counter, so that the order in which the source draws its numbers is
  part of the model. The grid constants are integers; the source divides them only
  where the division is exact, so integer division stands for it.
\<close>

type_synonym rng = "nat \<Rightarrow> real"

datatype Emotion = HAPPY | CALM | SAD

record SystemState =
  emotion :: Emotion
  mouthOpenness :: real
  mouthCurvature :: real
  soundAmplitude :: real
  soundFrequency :: real
  handPosition_x :: real
  handPosition_y :: real
  handSize :: real
  isFist :: bool

definition GAME_OVER_RADIUS :: real where
  "GAME_OVER_RADIUS = 8000"

definition WORLD_EXTENT :: int where
  "WORLD_EXTENT = 60000"

definition CHUNK_SIZE :: int where
  "CHUNK_SIZE = 2000"

definition TOTAL_CHUNKS_SIDE :: int where
  "TOTAL_CHUNKS_SIDE = (WORLD_EXTENT * 2) div CHUNK_SIZE"

definition INSTANCES_PER_CHUNK :: nat where
  "INSTANCES_PER_CHUNK = 5000"

text \<open>The visualizer configuration (\<^verbatim>\<open>CONFIG\<close>), as far as the scene reads it.\<close>

definition CONFIG_happyColor :: nat where
  "CONFIG_happyColor = 0xD4DE8D"

definition CONFIG_calmColor :: nat where
  "CONFIG_calmColor = 0xE6C229"

definition CONFIG_sadColor :: nat where
  "CONFIG_sadColor = 0xBBDDFF"

section \<open>Simulation state\<close>

record Color =
  col_r :: real
  col_g :: real
  col_b :: real

text \<open>\<^verbatim>\<open>Color.setHex\<close>: the three bytes of the hex triplet, scaled to the unit interval.\<close>

definition setHex :: "nat \<Rightarrow> Color" where
  "setHex h = \<lparr> col_r = real ((h div 65536) mod 256) / 255,
                col_g = real ((h div 256) mod 256) / 255,
                col_b = real (h mod 256) / 255 \<rparr>"

text \<open>\<^verbatim>\<open>Color.lerp(target, alpha)\<close>: each channel moves by \<open>alpha\<close> of its distance.\<close>

definition lerp :: "Color \<Rightarrow> Color \<Rightarrow> real \<Rightarrow> Color" where
  "lerp c t a = \<lparr> col_r = col_r c + (col_r t - col_r c) * a,
                  col_g = col_g c + (col_g t - col_g c) * a,
                  col_b = col_b c + (col_b t - col_b c) * a \<rparr>"

record Shard =
  shard_x :: real
  shard_y :: real
  shard_z :: real
  shard_rot_x :: real
  shard_rot_y :: real
  shard_visible :: bool

text \<open>
  The live environment: the grass uniforms, the sun light, \<^verbatim>\<open>currentWeather\<close> and the
  halo uniforms.
\<close>

record Env =
  uBaseColor :: Color
  uTipColor :: Color
  uWindStrength :: real
  sunLight_color :: Color
  weather_color :: Color
  weather_speed :: real
  weather_sway :: real
  weather_size :: real
  halo_uColor :: Color
  halo_uOpacity :: real

record Sim =
  timeRef :: real
  player_x :: real
  player_y :: real
  player_z :: real
  velocity_x :: real
  velocity_y :: real
  shards :: "Shard list"
  env :: Env
  rng_next :: nat

datatype Event = CollectShard | GameOver

section \<open>Player kinematics\<close>

definition turn :: "real \<Rightarrow> real" where
  "turn joyX = joyX * 2.5"

definition NEUTRAL_SIZE :: real where
  "NEUTRAL_SIZE = 0.12"

definition SIZE_DEADZONE :: real where
  "SIZE_DEADZONE = 0.02"

definition speedZ :: "real \<Rightarrow> real" where
  "speedZ hs =
     (let sizeDiff = hs - NEUTRAL_SIZE in
      if \<bar>sizeDiff\<bar> > SIZE_DEADZONE then - (sizeDiff * 25.0) else 0)"

definition moveSpeed :: real where
  "moveSpeed = 0.6"

text \<open>Step 2 of \<^verbatim>\<open>animate\<close>: low-pass the two speeds into the velocity, then integrate.\<close>

definition movement :: "SystemState \<Rightarrow> Sim \<Rightarrow> Sim" where
  "movement st s =
     (let vx = velocity_x s * 0.9 + turn (handPosition_x st) * 0.1;
          vy = velocity_y s * 0.9 + speedZ (handSize st) * 0.1
      in s\<lparr> velocity_x := vx, velocity_y := vy,
              player_x := player_x s + vx * moveSpeed,
              player_z := player_z s + vy * moveSpeed \<rparr>)"

text \<open>The movement step alone, run over a sequence of input snapshots.\<close>

primrec run_movement :: "(nat \<Rightarrow> SystemState) \<Rightarrow> nat \<Rightarrow> Sim \<Rightarrow> Sim" where
  "run_movement sts 0 s = s"
| "run_movement sts (Suc n) s = movement (sts n) (run_movement sts n s)"

text \<open>
  The spec's wording of the depth input, for comparison with \<open>speedZ\<close>: the signed
  amount by which the hand size lies outside the dead band around the neutral size.
\<close>

definition spec_signed_excess :: "real \<Rightarrow> real" where
  "spec_signed_excess hs =
     (if hs - NEUTRAL_SIZE > SIZE_DEADZONE then hs - NEUTRAL_SIZE - SIZE_DEADZONE
      else if hs - NEUTRAL_SIZE < - SIZE_DEADZONE then hs - NEUTRAL_SIZE + SIZE_DEADZONE
      else 0)"

section \<open>Shards\<close>

definition planar_dist :: "Shard \<Rightarrow> real \<Rightarrow> real \<Rightarrow> real" where
  "planar_dist sh px pz =
     (let dx = shard_x sh - px; dz = shard_z sh - pz in sqrt (dx * dx + dz * dz))"

text \<open>
  The body of the shard loop for the shard of index \<open>i\<close>: spin and bob, then collect
  within 10, relocate beyond 8000. The result is the shard, the counter of the random
  supply and the events signalled.
\<close>

definition shard_step ::
  "rng \<Rightarrow> real \<Rightarrow> real \<Rightarrow> real \<Rightarrow> nat \<Rightarrow> Shard \<Rightarrow> nat \<Rightarrow> Shard \<times> nat \<times> Event list" where
  "shard_step rnd t px pz i sh k =
     (let sh1 = sh\<lparr> shard_rot_y := shard_rot_y sh + 0.02,
                     shard_rot_x := shard_rot_x sh + 0.01,
                     shard_y := 5 + sin (t * 2 + real i) * 1.5 \<rparr>;
          dist = planar_dist sh1 px pz
      in if dist < 10 then
           (sh1\<lparr> shard_visible := False \<rparr>
               \<lparr> shard_x := px + (rnd k - 0.5) * 2000,
                 shard_y := 5,
                 shard_z := pz + (rnd (k + 1) - 0.5) * 2000 \<rparr>
               \<lparr> shard_visible := True \<rparr>,
            k + 2, [CollectShard])
         else if dist > 8000 then
           (sh1\<lparr> shard_x := px + (rnd k - 0.5) * 4000,
                 shard_y := 5,
                 shard_z := pz + (rnd (k + 1) - 0.5) * 4000 \<rparr>,
            k + 2, [])
         else (sh1, k, []))"

text \<open>The loop runs from the last index down to 0; \<open>shards_loop n\<close> handles the indices below \<open>n\<close>.\<close>

fun shards_loop ::
  "rng \<Rightarrow> real \<Rightarrow> real \<Rightarrow> real \<Rightarrow> nat \<Rightarrow> Shard list \<times> nat \<times> Event list
     \<Rightarrow> Shard list \<times> nat \<times> Event list" where
  "shards_loop rnd t px pz 0 acc = acc"
| "shards_loop rnd t px pz (Suc i) (shs, k, evs) =
     (case shard_step rnd t px pz i (shs ! i) k of
        (sh', k', e) \<Rightarrow> shards_loop rnd t px pz i (shs[i := sh'], k', evs @ e))"

definition shards_stage :: "rng \<Rightarrow> Sim \<Rightarrow> Sim \<times> Event list" where
  "shards_stage rnd s =
     (case shards_loop rnd (timeRef s) (player_x s) (player_z s) (length (shards s))
             (shards s, rng_next s, []) of
        (shs, k, evs) \<Rightarrow> (s\<lparr> shards := shs, rng_next := k \<rparr>, evs))"

section \<open>Environment blender\<close>

record Targets =
  targetBase :: Color
  targetTip :: Color
  sunColor :: Color
  targetWeatherColor :: Color
  targetWeatherSpeed :: real
  targetWeatherSway :: real
  targetWeatherSize :: real
  targetHaloOpacity :: real
  targetHaloColor :: Color

text \<open>The values the target variables are declared with, before the emotion is looked at.\<close>

definition declared_targets :: Targets where
  "declared_targets =
     \<lparr> targetBase = setHex 0x0a3a0a, targetTip = setHex 0x88cc44, sunColor = setHex 0xffaa33,
       targetWeatherColor = setHex 0xffffff, targetWeatherSpeed = 10, targetWeatherSway = 1,
       targetWeatherSize = 3, targetHaloOpacity = 0.0, targetHaloColor = setHex 0xffaa33 \<rparr>"

fun targets :: "Emotion \<Rightarrow> Targets" where
  "targets CALM =
     declared_targets\<lparr> targetBase := setHex 0x1a2a0a, targetTip := setHex CONFIG_calmColor,
       sunColor := setHex 0xffaa33, targetWeatherColor := setHex 0xE6C229,
       targetWeatherSpeed := 6.0, targetWeatherSway := 2.0, targetWeatherSize := 5.0,
       targetHaloOpacity := 0.4, targetHaloColor := setHex 0xffaa00 \<rparr>"
| "targets HAPPY =
     declared_targets\<lparr> targetBase := setHex 0x1a2010, targetTip := setHex CONFIG_happyColor,
       sunColor := setHex 0xffffdd, targetWeatherColor := setHex 0xFFFFCC,
       targetWeatherSpeed := 8.0, targetWeatherSway := 1.5, targetWeatherSize := 4.0,
       targetHaloOpacity := 0.6, targetHaloColor := setHex 0xfffee0 \<rparr>"
| "targets SAD =
     declared_targets\<lparr> targetBase := setHex 0x223344, targetTip := setHex CONFIG_sadColor,
       sunColor := setHex 0xFFEECC, targetWeatherColor := setHex 0xFFFFFF,
       targetWeatherSpeed := 20.0, targetWeatherSway := 0.8, targetWeatherSize := 2.5,
       targetHaloOpacity := 0.5, targetHaloColor := setHex 0xFFDD88 \<rparr>"

text \<open>
  The last part of \<^verbatim>\<open>animate\<close>: the wind strength is set from the sound amplitude,
  every other live value moves toward its target.
\<close>

definition blend :: "SystemState \<Rightarrow> Env \<Rightarrow> Env" where
  "blend st e =
     (let tg = targets (emotion st);
          windStrength = 0.5 + soundAmplitude st * 5.0;
          curOp = halo_uOpacity e
      in e\<lparr> uWindStrength := windStrength,
              uBaseColor := lerp (uBaseColor e) (targetBase tg) 0.05,
              uTipColor := lerp (uTipColor e) (targetTip tg) 0.05,
              sunLight_color := lerp (sunLight_color e) (sunColor tg) 0.05,
              weather_color := lerp (weather_color e) (targetWeatherColor tg) 0.05,
              weather_speed := weather_speed e + (targetWeatherSpeed tg - weather_speed e) * 0.05,
              weather_sway := weather_sway e + (targetWeatherSway tg - weather_sway e) * 0.05,
              weather_size := weather_size e + (targetWeatherSize tg - weather_size e) * 0.05,
              halo_uColor := lerp (halo_uColor e) (targetHaloColor tg) 0.05,
              halo_uOpacity := curOp + (targetHaloOpacity tg - curOp) * 0.02 \<rparr>)"

text \<open>The blender alone, run over a sequence of input snapshots.\<close>

primrec run_blend :: "(nat \<Rightarrow> SystemState) \<Rightarrow> nat \<Rightarrow> Env \<Rightarrow> Env" where
  "run_blend sts 0 e = e"
| "run_blend sts (Suc n) e = blend (sts n) (run_blend sts n e)"

text \<open>
  The scalar channels of the live environment that the blender smooths, the matching
  channels of a target tuple and the rate the source applies to each: a view of the
  two records used to speak about every parameter at once.
\<close>

definition color_channels :: "Color \<Rightarrow> real list" where
  "color_channels c = [col_r c, col_g c, col_b c]"

definition env_channels :: "Env \<Rightarrow> real list" where
  "env_channels e =
     color_channels (uBaseColor e) @ color_channels (uTipColor e) @
     color_channels (sunLight_color e) @ color_channels (weather_color e) @
     [weather_speed e, weather_sway e, weather_size e] @
     color_channels (halo_uColor e) @ [halo_uOpacity e]"

definition target_channels :: "Targets \<Rightarrow> real list" where
  "target_channels tg =
     color_channels (targetBase tg) @ color_channels (targetTip tg) @
     color_channels (sunColor tg) @ color_channels (targetWeatherColor tg) @
     [targetWeatherSpeed tg, targetWeatherSway tg, targetWeatherSize tg] @
     color_channels (targetHaloColor tg) @ [targetHaloOpacity tg]"

definition channel_rates :: "real list" where
  "channel_rates = replicate 18 0.05 @ [0.02]"

section \<open>The animation tick\<close>

text \<open>
  One call of \<^verbatim>\<open>animate\<close>. The frame is requested again before anything else, so the
  function is called on every frame whatever it returns; a paused frame returns at once.
  The refs the tick tests for null are all set by scene construction, which runs before
  the first tick, so the tests are taken as passed. Camera, level of detail and companion
  hover read the state and write none of the fields below; they are not part of the
  record.
\<close>

definition distFromCenter :: "Sim \<Rightarrow> real" where
  "distFromCenter s = sqrt ((player_x s)\<^sup>2 + (player_z s)\<^sup>2)"

definition animate :: "bool \<Rightarrow> SystemState \<Rightarrow> rng \<Rightarrow> Sim \<Rightarrow> Sim \<times> Event list" where
  "animate isPaused st rnd s =
     (if isPaused then (s, [])
      else
        let s1 = s\<lparr> timeRef := timeRef s + 0.01 \<rparr> in
        if distFromCenter s1 > GAME_OVER_RADIUS then (s1, [GameOver])
        else
          let s2 = movement st s1 in
          case shards_stage rnd s2 of
            (s3, evs) \<Rightarrow> (s3\<lparr> env := blend st (env s3) \<rparr>, evs))"

text \<open>A run of frames, each with its pause flag and its input snapshot.\<close>

fun run :: "rng \<Rightarrow> (bool \<times> SystemState) list \<Rightarrow> Sim \<Rightarrow> Sim \<times> Event list" where
  "run rnd [] s = (s, [])"
| "run rnd ((p, st) # fs) s =
     (case animate p st rnd s of
        (s1, e1) \<Rightarrow> (case run rnd fs s1 of (s2, e2) \<Rightarrow> (s2, e1 @ e2)))"

text \<open>Scene construction, as far as the simulation state goes.\<close>

definition new_shard :: "rng \<Rightarrow> nat \<Rightarrow> Shard" where
  "new_shard rnd k =
     \<lparr> shard_x = (rnd k - 0.5) * 6000,
       shard_y = 5 + rnd (k + 1) * 5,
       shard_z = (rnd (k + 2) - 0.5) * 6000,
       shard_rot_x = 0, shard_rot_y = 0, shard_visible = True \<rparr>"

primrec init_shards :: "rng \<Rightarrow> nat \<Rightarrow> nat \<Rightarrow> Shard list \<times> nat" where
  "init_shards rnd 0 k = ([], k)"
| "init_shards rnd (Suc n) k =
     (case init_shards rnd n k of (shs, k') \<Rightarrow> (shs @ [new_shard rnd k'], k' + 3))"

definition init_env :: Env where
  "init_env =
     \<lparr> uBaseColor = setHex 0x0a3a0a, uTipColor = setHex 0xB0D66B, uWindStrength = 1.0,
       sunLight_color = setHex 0xffaa33, weather_color = setHex 0xffffff,
       weather_speed = 10, weather_sway = 1, weather_size = 4,
       halo_uColor = setHex 0xffaa33, halo_uOpacity = 0.0 \<rparr>"

definition init_sim :: "rng \<Rightarrow> nat \<Rightarrow> Sim" where
  "init_sim rnd k =
     (case init_shards rnd 150 k of
        (shs, k') \<Rightarrow>
          \<lparr> timeRef = 0, player_x = 0, player_y = 6, player_z = 0,
            velocity_x = 0, velocity_y = 0, shards = shs, env = init_env, rng_next = k' \<rparr>)"

section \<open>Shaders\<close>

text \<open>
  The interactive push of the grass vertex shader. \<open>worldPos\<close> is the vertex after the
  wind offset, \<open>heightPercent\<close> is \<^verbatim>\<open>pos.y / 4.5\<close>. GLSL's \<^verbatim>\<open>pow(x, 2.0)\<close> is the square.
  The push direction is the difference of the two positions normalised in all three
  coordinates, of which the shader applies the x and z parts. For a vertex at the player
  position itself GLSL leaves \<^verbatim>\<open>normalize\<close> undefined; nothing below is stated for
  that point.
\<close>

definition interactRadius :: real where
  "interactRadius = 35.0"

definition pushFactor :: "real \<Rightarrow> real \<Rightarrow> real" where
  "pushFactor dst heightPercent = (1.0 - dst / interactRadius)\<^sup>2 * 12.0 * heightPercent"

definition interactive_push ::
  "real \<times> real \<times> real \<Rightarrow> real \<times> real \<times> real \<Rightarrow> real \<Rightarrow> real \<times> real \<times> real" where
  "interactive_push worldPos uPlayerPosition heightPercent =
     (case worldPos of (wx, wy, wz) \<Rightarrow>
      case uPlayerPosition of (px, py, pz) \<Rightarrow>
        let dist = sqrt ((wx - px)\<^sup>2 + (wz - pz)\<^sup>2) in
        if dist < interactRadius then
          let pf = pushFactor dist heightPercent;
              len = sqrt ((wx - px)\<^sup>2 + (wy - py)\<^sup>2 + (wz - pz)\<^sup>2);
              pushDir_x = (wx - px) / len;
              pushDir_z = (wz - pz) / len
          in (wx + pushDir_x * pf, wy - pf * 0.5, wz + pushDir_z * pf)
        else (wx, wy, wz))"

text \<open>
  The scalar the shader scales the push direction with, as a function of the planar
  distance: \<open>pushFactor\<close> inside the radius; outside the radius the shader applies no push,
  which is the scale 0. It is not the length of the displacement.
\<close>

definition push_scale :: "real \<Rightarrow> real \<Rightarrow> real" where
  "push_scale dst heightPercent =
     (if dst < interactRadius then pushFactor dst heightPercent else 0)"

text \<open>The length of the horizontal displacement the shader applies to a vertex.\<close>

definition horizontal_push ::
  "real \<times> real \<times> real \<Rightarrow> real \<times> real \<times> real \<Rightarrow> real \<Rightarrow> real" where
  "horizontal_push worldPos uPlayerPosition heightPercent =
     (case worldPos of (wx, wy, wz) \<Rightarrow>
      case interactive_push worldPos uPlayerPosition heightPercent of (x', y', z') \<Rightarrow>
        sqrt ((x' - wx)\<^sup>2 + (z' - wz)\<^sup>2))"

text \<open>GLSL built-ins of the weather vertex shader, by their defining formulas.\<close>

definition glsl_mod :: "real \<Rightarrow> real \<Rightarrow> real" where
  "glsl_mod x y = x - y * of_int \<lfloor>x / y\<rfloor>"

definition glsl_clamp :: "real \<Rightarrow> real \<Rightarrow> real \<Rightarrow> real" where
  "glsl_clamp x lo hi = min (max x lo) hi"

definition smoothstep :: "real \<Rightarrow> real \<Rightarrow> real \<Rightarrow> real" where
  "smoothstep edge0 edge1 x =
     (let t = glsl_clamp ((x - edge0) / (edge1 - edge0)) 0 1 in t * t * (3 - 2 * t))"

definition weather_y :: "real \<Rightarrow> real \<Rightarrow> real \<Rightarrow> real \<Rightarrow> real" where
  "weather_y uTime uSpeed aRandom pos_y =
     (let fallOffset = uTime * uSpeed * (0.8 + 0.4 * aRandom);
          height = 200.0
      in 100.0 - glsl_mod ((100.0 - pos_y) + fallOffset) height)"

definition weather_alpha :: "real \<Rightarrow> real" where
  "weather_alpha pos_y =
     (let normY = (pos_y + 100.0) / 200.0
      in smoothstep 0.0 0.15 normY * smoothstep 1.0 0.85 normY)"

section \<open>Field generator\<close>

record Transform =
  t_px :: real
  t_pz :: real
  t_rot_y :: real
  t_scale :: real

record PlaneGeometry =
  geo_width :: real
  geo_height :: real
  geo_widthSegments :: nat
  geo_heightSegments :: nat
  geo_translate_y :: real

text \<open>
  An instanced mesh: its geometry, its instance count and one matrix slot per instance,
  empty until \<^verbatim>\<open>setMatrixAt\<close> fills it. Both meshes of a chunk use the one grass material.
\<close>

record InstancedMesh =
  im_geometry :: PlaneGeometry
  im_count :: nat
  im_matrices :: "Transform option list"
  castShadow :: bool
  receiveShadow :: bool

record Chunk =
  chunk_x :: int
  chunk_z :: int
  meshHigh :: InstancedMesh
  meshLow :: InstancedMesh
  level_high :: real
  level_low :: real

definition bladeWidth :: real where
  "bladeWidth = 0.7"

definition bladeHeight :: real where
  "bladeHeight = 4.5"

definition grassGeoHigh :: PlaneGeometry where
  "grassGeoHigh = \<lparr> geo_width = bladeWidth, geo_height = bladeHeight, geo_widthSegments = 1,
                     geo_heightSegments = 3, geo_translate_y = bladeHeight / 2 \<rparr>"

definition grassGeoLow :: PlaneGeometry where
  "grassGeoLow = \<lparr> geo_width = bladeWidth, geo_height = bladeHeight, geo_widthSegments = 1,
                    geo_heightSegments = 1, geo_translate_y = bladeHeight / 2 \<rparr>"

definition new_InstancedMesh :: "PlaneGeometry \<Rightarrow> nat \<Rightarrow> InstancedMesh" where
  "new_InstancedMesh geo n =
     \<lparr> im_geometry = geo, im_count = n, im_matrices = replicate n None,
       castShadow = False, receiveShadow = False \<rparr>"

definition setMatrixAt :: "InstancedMesh \<Rightarrow> nat \<Rightarrow> Transform \<Rightarrow> InstancedMesh" where
  "setMatrixAt m j tr = m\<lparr> im_matrices := (im_matrices m)[j := Some tr] \<rparr>"

text \<open>The transform the dummy object holds after its four random draws.\<close>

definition dummy_matrix :: "rng \<Rightarrow> nat \<Rightarrow> Transform" where
  "dummy_matrix rnd k =
     \<lparr> t_px = (rnd k - 0.5) * real_of_int CHUNK_SIZE,
       t_pz = (rnd (k + 1) - 0.5) * real_of_int CHUNK_SIZE,
       t_rot_y = rnd (k + 2) * pi,
       t_scale = 0.8 + rnd (k + 3) * 0.7 \<rparr>"

definition fill_instances ::
  "rng \<Rightarrow> InstancedMesh \<times> InstancedMesh \<times> nat \<Rightarrow> InstancedMesh \<times> InstancedMesh \<times> nat" where
  "fill_instances rnd start =
     foldl (\<lambda>(hi, lo, k) j.
              let m = dummy_matrix rnd k in (setMatrixAt hi j m, setMatrixAt lo j m, k + 4))
           start [0..<INSTANCES_PER_CHUNK]"

definition make_chunk :: "rng \<Rightarrow> nat \<Rightarrow> int \<Rightarrow> int \<Rightarrow> Chunk \<times> nat" where
  "make_chunk rnd k x z =
     (let centerX = x * CHUNK_SIZE + CHUNK_SIZE div 2;
          centerZ = z * CHUNK_SIZE + CHUNK_SIZE div 2;
          hi0 = (new_InstancedMesh grassGeoHigh INSTANCES_PER_CHUNK)
                  \<lparr> castShadow := True, receiveShadow := True \<rparr>;
          lo0 = (new_InstancedMesh grassGeoLow INSTANCES_PER_CHUNK)
                  \<lparr> castShadow := False, receiveShadow := True \<rparr>
      in case fill_instances rnd (hi0, lo0, k) of
           (hi, lo, k') \<Rightarrow>
             (\<lparr> chunk_x = centerX, chunk_z = centerZ, meshHigh = hi, meshLow = lo,
                level_high = 0, level_low = 2000 \<rparr>, k'))"

definition halfGrid :: int where
  "halfGrid = TOTAL_CHUNKS_SIDE div 2"

definition gen_chunks :: "rng \<Rightarrow> nat \<Rightarrow> Chunk list \<times> nat" where
  "gen_chunks rnd k0 =
     foldl (\<lambda>acc x.
              foldl (\<lambda>(chunks, k) z.
                       case make_chunk rnd k x z of (lod, k') \<Rightarrow> (chunks @ [lod], k'))
                    acc [- halfGrid..halfGrid - 1])
           ([], k0) [- halfGrid..halfGrid - 1]"

definition chunks :: "rng \<Rightarrow> Chunk list" where
  "chunks rnd = fst (gen_chunks rnd 0)"

text \<open>
  The tile of a chunk, half-open so that neighbours share no point, and the square the
  generator is to cover.
\<close>

definition in_chunk :: "Chunk \<Rightarrow> real \<Rightarrow> real \<Rightarrow> bool" where
  "in_chunk c px pz =
     (real_of_int (chunk_x c) - real_of_int CHUNK_SIZE / 2 \<le> px \<and>
      px < real_of_int (chunk_x c) + real_of_int CHUNK_SIZE / 2 \<and>
      real_of_int (chunk_z c) - real_of_int CHUNK_SIZE / 2 \<le> pz \<and>
      pz < real_of_int (chunk_z c) + real_of_int CHUNK_SIZE / 2)"

definition in_world :: "real \<Rightarrow> real \<Rightarrow> bool" where
  "in_world px pz =
     (- real_of_int WORLD_EXTENT \<le> px \<and> px < real_of_int WORLD_EXTENT \<and>
      - real_of_int WORLD_EXTENT \<le> pz \<and> pz < real_of_int WORLD_EXTENT)"

section \<open>Shop state\<close>

text \<open>
  A store item without its two display texts (name and description), which no
  operation reads.
\<close>

datatype ItemType = skin | companion

record StoreItem =
  item_id :: string
  item_type :: ItemType
  cost :: int
  unlocked :: bool
  active :: bool

definition INITIAL_STORE_ITEMS :: "StoreItem list" where
  "INITIAL_STORE_ITEMS =
     [ \<lparr> item_id = ''skin_default'', item_type = skin, cost = 0, unlocked = True, active = True \<rparr>,
       \<lparr> item_id = ''skin_cube'', item_type = skin, cost = 50, unlocked = False, active = False \<rparr>,
       \<lparr> item_id = ''skin_tetra'', item_type = skin, cost = 120, unlocked = False, active = False \<rparr>,
       \<lparr> item_id = ''comp_butterfly'', item_type = companion, cost = 0, unlocked = True, active = True \<rparr>,
       \<lparr> item_id = ''comp_firefly'', item_type = companion, cost = 80, unlocked = False, active = False \<rparr>,
       \<lparr> item_id = ''comp_spirit'', item_type = companion, cost = 200, unlocked = False, active = False \<rparr> ]"

definition handleCollectShard :: "int \<Rightarrow> int" where
  "handleCollectShard xp = xp + 50"

definition handlePurchase :: "StoreItem \<Rightarrow> int \<times> StoreItem list \<Rightarrow> int \<times> StoreItem list" where
  "handlePurchase item st =
     (case st of (xp, storeItems) \<Rightarrow>
        if xp \<ge> cost item \<and> \<not> unlocked item then
          (xp - cost item,
           map (\<lambda>i. if item_id i = item_id item then i\<lparr> unlocked := True \<rparr> else i) storeItems)
        else (xp, storeItems))"

definition handleEquip :: "StoreItem \<Rightarrow> StoreItem list \<Rightarrow> StoreItem list" where
  "handleEquip item storeItems =
     (if \<not> unlocked item then storeItems
      else map (\<lambda>i. if item_type item = skin \<and> item_type i = skin then
                       i\<lparr> active := (item_id i = item_id item) \<rparr>
                     else if item_type item = companion \<and> item_type i = companion then
                       i\<lparr> active := (item_id i = item_id item) \<rparr>
                     else i) storeItems)"

text \<open>
  The two selectors: the id of the first active item of the type, or the default when
  there is none (or its id is the empty string, which JavaScript's \<^verbatim>\<open>||\<close> skips).
\<close>

definition activeSkin :: "StoreItem list \<Rightarrow> string" where
  "activeSkin storeItems =
     (case find (\<lambda>i. item_type i = skin \<and> active i) storeItems of
        Some i \<Rightarrow> if item_id i = [] then ''skin_default'' else item_id i
      | None \<Rightarrow> ''skin_default'')"

definition activeCompanion :: "StoreItem list \<Rightarrow> string" where
  "activeCompanion storeItems =
     (case find (\<lambda>i. item_type i = companion \<and> active i) storeItems of
        Some i \<Rightarrow> if item_id i = [] then ''comp_butterfly'' else item_id i
      | None \<Rightarrow> ''comp_butterfly'')"

text \<open>
  The shop states the application can be in: the overlay calls the purchase and equip
  handlers with an item of the store it renders.
\<close>

inductive reachable :: "int \<times> StoreItem list \<Rightarrow> bool" where
  init: "reachable (0, INITIAL_STORE_ITEMS)"
| collect: "reachable (xp, storeItems) \<Longrightarrow> reachable (handleCollectShard xp, storeItems)"
| purchase: "reachable (xp, storeItems) \<Longrightarrow> item \<in> set storeItems
               \<Longrightarrow> reachable (handlePurchase item (xp, storeItems))"
| equip: "reachable (xp, storeItems) \<Longrightarrow> item \<in> set storeItems
               \<Longrightarrow> reachable (xp, handleEquip item storeItems)"

definition active_count :: "ItemType \<Rightarrow> StoreItem list \<Rightarrow> nat" where
  "active_count ty storeItems = length (filter (\<lambda>i. item_type i = ty \<and> active i) storeItems)"

section \<open>Cosmetic subtrees\<close>

datatype Side = FrontSide | DoubleSide

datatype Blending = NormalBlending | AdditiveBlending

datatype MaterialOption =
    Transparent bool
  | Opacity real
  | BlendingOf Blending
  | SideOf Side

datatype Material =
    MeshStandardMaterial (std_color: nat) (std_emissive: nat) (std_roughness: real)
      (std_metalness: real)
  | MeshPhysicalMaterial (phy_color: nat) (phy_transmission: real) (phy_opacity: real)
      (phy_transparent: bool) (phy_roughness: real) (phy_ior: real) (phy_thickness: real)
  | MeshBasicMaterial (bas_color: nat) (bas_options: "MaterialOption list")

datatype Geometry =
    BoxGeometry real real real
  | TetrahedronGeometry real
  | SphereGeometry real nat nat
  | DodecahedronGeometry real nat
  | CircleGeometry real nat real real
  | Translate Geometry real real real

text \<open>A child of a group: a mesh with its rotation and position, or a point light.\<close>

datatype Object3D =
    Mesh Geometry Material "real \<times> real \<times> real" "real \<times> real \<times> real"
  | PointLight nat real real

fun is_Mesh :: "Object3D \<Rightarrow> bool" where
  "is_Mesh (Mesh g m rot pos) = True"
| "is_Mesh (PointLight c i d) = False"

definition skin_mesh :: "string \<Rightarrow> Object3D" where
  "skin_mesh activeSkinRef =
     (if activeSkinRef = ''skin_cube'' then
        Mesh (BoxGeometry 4 4 4) (MeshStandardMaterial 0x00ffff 0x0088aa 0.2 0.8) (0, 0, 0) (0, 0, 0)
      else if activeSkinRef = ''skin_tetra'' then
        Mesh (TetrahedronGeometry 3.5) (MeshPhysicalMaterial 0xffccff 0.5 0.8 True 0 1.5 2.0)
          (0, 0, 0) (0, 0, 0)
      else
        Mesh (SphereGeometry 2.5 32 32) (MeshBasicMaterial 0xffffee []) (0, 0, 0) (0, 0, 0))"

text \<open>
  A group reference is \<open>None\<close> while the scene is not built; both rebuild functions
  return at once then.
\<close>

definition updatePlayerMesh :: "string \<Rightarrow> Object3D list option \<Rightarrow> Object3D list option" where
  "updatePlayerMesh activeSkinRef playerRef =
     (case playerRef of
        None \<Rightarrow> None
      | Some children \<Rightarrow>
          let children1 = (case find is_Mesh children of
                             Some oldMesh \<Rightarrow> remove1 oldMesh children
                           | None \<Rightarrow> children)
          in Some (children1 @ [skin_mesh activeSkinRef]))"

fun remove_children :: "Object3D list \<Rightarrow> Object3D list" where
  "remove_children [] = []"
| "remove_children (c # cs) = remove_children cs"

text \<open>
  The children a companion variant is built from. The two butterfly wings share one
  geometry object, which each wing translates once, so both show it translated twice.
\<close>

definition companion_children :: "string \<Rightarrow> Object3D list" where
  "companion_children ty =
     (if ty = ''comp_firefly'' then
        [ Mesh (SphereGeometry 0.5 8 8) (MeshBasicMaterial 0xffaa00 []) (0, 0, 0) (0, 0, 0),
          PointLight 0xffaa00 1.5 30 ]
      else if ty = ''comp_spirit'' then
        [ Mesh (DodecahedronGeometry 1.2 0)
            (MeshBasicMaterial 0xccffff [Transparent True, Opacity 0.6, BlendingOf AdditiveBlending])
            (0, 0, 0) (0, 0, 0),
          PointLight 0xccffff 1.0 40 ]
      else
        let wingGeo = Translate (Translate (CircleGeometry 0.8 8 0 pi) 0 0.4 0) 0 0.4 0;
            wingMat = MeshBasicMaterial 0x88CCFF [SideOf DoubleSide, Transparent True, Opacity 0.9]
        in [ Mesh wingGeo wingMat (pi / 2, 0, pi / 2) (- 0.1, 0, 0),
             Mesh wingGeo wingMat (pi / 2, 0, - pi / 2) (0.1, 0, 0),
             PointLight 0x0088ff 0.8 20 ])"

definition updateCompanionMesh :: "string \<Rightarrow> Object3D list option \<Rightarrow> Object3D list option" where
  "updateCompanionMesh activeCompanionRef companionGroupRef =
     (case companionGroupRef of
        None \<Rightarrow> None
      | Some children \<Rightarrow> Some (remove_children children @ companion_children activeCompanionRef))"

text \<open>
  The effect that runs when a selector changes: both subtrees are rebuilt from the
  current selectors.
\<close>

definition cosmetics_effect ::
  "StoreItem list \<Rightarrow> Object3D list option \<times> Object3D list option
     \<Rightarrow> Object3D list option \<times> Object3D list option" where
  "cosmetics_effect storeItems groups =
     (case groups of (playerRef, companionGroupRef) \<Rightarrow>
        (updatePlayerMesh (activeSkin storeItems) playerRef,
         updateCompanionMesh (activeCompanion storeItems) companionGroupRef))"

text \<open>The two groups as scene construction leaves them, for the selectors it starts with.\<close>

definition init_groups ::
  "StoreItem list \<Rightarrow> Object3D list option \<times> Object3D list option" where
  "init_groups storeItems =
     (updatePlayerMesh (activeSkin storeItems) (Some [PointLight 0xffaa00 2 60]),
      updateCompanionMesh (activeCompanion storeItems) (Some []))"

text \<open>The input snapshot the application starts with.\<close>

definition initial_SystemState :: SystemState where
  "initial_SystemState =
     \<lparr> emotion = CALM, mouthOpenness = 0, mouthCurvature = 0, soundAmplitude = 0,
       soundFrequency = 0, handPosition_x = 0, handPosition_y = 0, handSize = 0.1,
       isFist = False \<rparr>"

text \<open>
  What every shop state keeps of the initial store: the ids and types of its items in
  their order, and one active item of each type.
\<close>

definition shop_inv :: "int \<times> StoreItem list \<Rightarrow> bool" where
  "shop_inv st \<longleftrightarrow>
     map item_id (snd st) = map item_id INITIAL_STORE_ITEMS \<and>
     map item_type (snd st) = map item_type INITIAL_STORE_ITEMS \<and>
     active_count skin (snd st) = 1 \<and> active_count companion (snd st) = 1"

text \<open>
  The two groups after scene construction with the store \<open>s0\<close> and one run of the
  effect for each store of \<open>ss\<close> in turn.
\<close>

definition scene_after ::
  "StoreItem list \<Rightarrow> StoreItem list list \<Rightarrow> Object3D list option \<times> Object3D list option" where
  "scene_after s0 ss = foldl (\<lambda>groups storeItems. cosmetics_effect storeItems groups)
                         (init_groups s0) ss"

text \<open>The centre coordinate of the tiles of grid coordinate \<open>x\<close>.\<close>

definition center :: "int \<Rightarrow> int" where
  "center x = x * CHUNK_SIZE + CHUNK_SIZE div 2"

text \<open>
  A shard the loop moves in a tick, and the counter of the random supply when the loop,
  which runs from the last index down, reaches the shard of index \<open>i\<close>: two draws were
  taken for every moved shard of a higher index.
\<close>

definition relocates :: "Shard \<Rightarrow> real \<Rightarrow> real \<Rightarrow> bool" where
  "relocates sh px pz \<longleftrightarrow> planar_dist sh px pz < 10 \<or> planar_dist sh px pz > 8000"

definition draw_index :: "nat \<Rightarrow> Shard list \<Rightarrow> real \<Rightarrow> real \<Rightarrow> nat \<Rightarrow> nat" where
  "draw_index k shs px pz i =
     k + 2 * length (filter (\<lambda>sh. relocates sh px pz) (drop (Suc i) shs))"

section \<open>Properties of the kinematics\<close>

lemma speedZ_cases:
  "speedZ hs = (if \<bar>hs - NEUTRAL_SIZE\<bar> > SIZE_DEADZONE then - 25 * (hs - NEUTRAL_SIZE) else 0)"
  by (simp add: speedZ_def Let_def)

text \<open>
  Claim C2, as the code has it. The depth speed is 0 while the hand size is within the
  dead zone of the neutral size. Outside the dead zone it is -25 times the whole
  difference between hand size and neutral size (not the part of the difference beyond
  the dead zone), so a hand larger than neutral gives a negative speed, which is forward
  (negative Z), and a smaller hand a positive one. The speed is then low-passed into the
  depth velocity and integrated into the Z position.
\<close>

theorem depth_speed_proportional_to_size_difference:
  "(\<bar>hs - NEUTRAL_SIZE\<bar> \<le> SIZE_DEADZONE \<longrightarrow> speedZ hs = 0) \<and>
   (\<bar>hs - NEUTRAL_SIZE\<bar> > SIZE_DEADZONE \<longrightarrow> speedZ hs = (- 25) * (hs - NEUTRAL_SIZE)) \<and>
   (hs > NEUTRAL_SIZE + SIZE_DEADZONE \<longrightarrow> speedZ hs < 0) \<and>
   (hs < NEUTRAL_SIZE - SIZE_DEADZONE \<longrightarrow> speedZ hs > 0) \<and>
   velocity_y (movement st s) = velocity_y s * 0.9 + speedZ (handSize st) * 0.1 \<and>
   player_z (movement st s) = player_z s + velocity_y (movement st s) * moveSpeed"
  by (auto simp: speedZ_cases SIZE_DEADZONE_def NEUTRAL_SIZE_def movement_def Let_def)

theorem depth_speed_witness:
  "speedZ 0.13 = 0 \<and> speedZ 0.16 = - 1 \<and> speedZ 0.06 = 1.5 \<and> speedZ 0.16 < 0 \<and> speedZ 0.06 > 0"
  using depth_speed_proportional_to_size_difference [of "0.13"]
        depth_speed_proportional_to_size_difference [of "0.16"]
        depth_speed_proportional_to_size_difference [of "0.06"]
  by (simp add: SIZE_DEADZONE_def NEUTRAL_SIZE_def)

text \<open>
  Claim C2 as the spec words it fails: no constant makes the depth speed that constant
  times the signed excess beyond the dead zone. At hand size 0.15 the speed is -0.75 with
  excess 0.01, at 0.16 it is -1 with excess 0.02.
\<close>

theorem depth_speed_not_proportional_to_excess:
  "\<not> (\<exists>c. \<forall>hs. \<bar>hs - NEUTRAL_SIZE\<bar> > SIZE_DEADZONE \<longrightarrow> speedZ hs = c * spec_signed_excess hs)"
proof
  assume "\<exists>c. \<forall>hs. \<bar>hs - NEUTRAL_SIZE\<bar> > SIZE_DEADZONE \<longrightarrow> speedZ hs = c * spec_signed_excess hs"
  then obtain c where c: "\<And>hs. \<bar>hs - NEUTRAL_SIZE\<bar> > SIZE_DEADZONE \<Longrightarrow> speedZ hs = c * spec_signed_excess hs"
    by blast
  have "speedZ 0.15 = c * spec_signed_excess 0.15"
    by (rule c) (simp add: SIZE_DEADZONE_def NEUTRAL_SIZE_def)
  moreover have "speedZ 0.16 = c * spec_signed_excess 0.16"
    by (rule c) (simp add: SIZE_DEADZONE_def NEUTRAL_SIZE_def)
  ultimately show False
    by (simp add: speedZ_cases spec_signed_excess_def SIZE_DEADZONE_def NEUTRAL_SIZE_def)
qed

lemma animate_velocity_x:
  assumes "\<not> isPaused" "distFromCenter s \<le> GAME_OVER_RADIUS"
  shows "velocity_x (fst (animate isPaused st rnd s)) = velocity_x (movement st s)"
  using assms
  by (simp add: animate_def Let_def case_prod_unfold shards_stage_def distFromCenter_def
        movement_def)

lemma velocity_x_closed:
  assumes "\<And>n. handPosition_x (sts n) = j"
  shows "velocity_x (run_movement sts n s) = turn j + (velocity_x s - turn j) * 0.9 ^ n"
proof (induction n)
  case 0
  show ?case by simp
next
  case (Suc n)
  have "velocity_x (run_movement sts (Suc n) s)
      = velocity_x (run_movement sts n s) * 0.9 + turn j * 0.1"
    by (simp add: movement_def Let_def assms)
  also have "\<dots> = turn j + (velocity_x s - turn j) * 0.9 ^ Suc n"
    by (simp add: Suc.IH field_simps)
  finally show ?case .
qed

text \<open>
  Claim C7. While the lateral input is 0.5 on every tick and the lateral velocity starts
  at 0, the velocity the low-pass update \<open>v * 0.9 + turn * 0.1\<close> produces never
  decreases, never exceeds 0.5 times the turn gain 2.5, and tends to that value. The
  update is the one a tick applies when it is neither paused nor past the boundary.
\<close>

theorem lateral_velocity_approaches_gain:
  assumes inp: "\<forall>n. handPosition_x (sts n) = 0.5" and rest: "velocity_x s = 0"
  shows "(\<forall>n. velocity_x (run_movement sts n s) \<le> velocity_x (run_movement sts (Suc n) s)) \<and>
         (\<forall>n. velocity_x (run_movement sts n s) \<le> 0.5 * 2.5) \<and>
         (\<lambda>n. velocity_x (run_movement sts n s)) \<longlonglongrightarrow> 0.5 * 2.5 \<and>
         (\<forall>n. velocity_x (run_movement sts (Suc n) s)
                = velocity_x (run_movement sts n s) * 0.9 + turn 0.5 * 0.1) \<and>
         (\<not> isPaused \<and> distFromCenter s' \<le> GAME_OVER_RADIUS \<longrightarrow>
            velocity_x (fst (animate isPaused st rnd s')) = velocity_x (movement st s'))"
proof -
  have cf: "velocity_x (run_movement sts n s) = 1.25 * (1 - 0.9 ^ n)" for n
    using velocity_x_closed [of sts "0.5" n s] inp rest
    by (simp add: turn_def algebra_simps)
  have mono: "velocity_x (run_movement sts n s) \<le> velocity_x (run_movement sts (Suc n) s)" for n
  proof -
    have p: "(0::real) \<le> (9 / 10) ^ n" by simp
    have a: "velocity_x (run_movement sts n s) = 5 / 4 - 5 / 4 * (9 / 10) ^ n"
      using cf [of n] by (simp add: algebra_simps)
    have b: "velocity_x (run_movement sts (Suc n) s) = 5 / 4 - 9 / 8 * (9 / 10) ^ n"
      using cf [of "Suc n"] by (simp del: run_movement.simps add: algebra_simps)
    show ?thesis unfolding a b using p by linarith
  qed
  have bound: "velocity_x (run_movement sts n s) \<le> 0.5 * 2.5" for n
    by (simp add: cf)
  have "(\<lambda>n. (1.25::real) * (1 - 0.9 ^ n)) \<longlonglongrightarrow> 1.25"
    by (auto intro!: tendsto_eq_intros LIMSEQ_realpow_zero)
  then have lim: "(\<lambda>n. velocity_x (run_movement sts n s)) \<longlonglongrightarrow> 0.5 * 2.5"
    by (simp add: cf)
  have step: "velocity_x (run_movement sts (Suc n) s)
                = velocity_x (run_movement sts n s) * 0.9 + turn 0.5 * 0.1" for n
    by (simp add: movement_def Let_def inp [rule_format])
  show ?thesis
    using mono bound lim step animate_velocity_x [of isPaused s' st rnd] by blast
qed

theorem lateral_velocity_witness:
  "(\<forall>n. velocity_x (run_movement (\<lambda>n. initial_SystemState\<lparr> handPosition_x := 0.5 \<rparr>) n
           (init_sim (\<lambda>k. 0) 0)) \<le> 0.5 * 2.5) \<and>
   (\<lambda>n. velocity_x (run_movement (\<lambda>n. initial_SystemState\<lparr> handPosition_x := 0.5 \<rparr>) n
           (init_sim (\<lambda>k. 0) 0))) \<longlonglongrightarrow> 0.5 * 2.5 \<and>
   velocity_x (run_movement (\<lambda>n. initial_SystemState\<lparr> handPosition_x := 0.5 \<rparr>) 2
           (init_sim (\<lambda>k. 0) 0)) = 0.2375"
proof -
  have v0: "velocity_x (init_sim (\<lambda>k. 0) 0) = 0"
    by (simp add: init_sim_def split: prod.split)
  have inp: "\<forall>n. handPosition_x (initial_SystemState\<lparr> handPosition_x := 0.5 \<rparr>) = 0.5"
    by simp
  have two: "velocity_x (run_movement (\<lambda>n. initial_SystemState\<lparr> handPosition_x := 0.5 \<rparr>) 2
           (init_sim (\<lambda>k. 0) 0)) = 0.2375"
    by (simp add: numeral_2_eq_2 movement_def Let_def turn_def v0)
  show ?thesis
    using lateral_velocity_approaches_gain [OF inp v0] two by blast
qed

section \<open>Properties of the shaders\<close>

lemma push_scale_max:
  "push_scale d hp = (max 0 (1 - d / interactRadius))\<^sup>2 * 12 * hp"
  by (auto simp: push_scale_def pushFactor_def interactRadius_def max_def)

lemma interactive_push_closed:
  "interactive_push (wx, wy, wz) (px, py, pz) hp =
     (wx + (wx - px) / sqrt ((wx - px)\<^sup>2 + (wy - py)\<^sup>2 + (wz - pz)\<^sup>2)
             * push_scale (sqrt ((wx - px)\<^sup>2 + (wz - pz)\<^sup>2)) hp,
      wy - push_scale (sqrt ((wx - px)\<^sup>2 + (wz - pz)\<^sup>2)) hp * 0.5,
      wz + (wz - pz) / sqrt ((wx - px)\<^sup>2 + (wy - py)\<^sup>2 + (wz - pz)\<^sup>2)
             * push_scale (sqrt ((wx - px)\<^sup>2 + (wz - pz)\<^sup>2)) hp)"
  by (simp add: interactive_push_def push_scale_def Let_def)

lemma scaled_direction_length:
  fixes a c l s :: real
  shows "sqrt ((a / l * s)\<^sup>2 + (c / l * s)\<^sup>2) = \<bar>s\<bar> * sqrt (a\<^sup>2 + c\<^sup>2) / \<bar>l\<bar>"
proof -
  have "(a / l * s)\<^sup>2 + (c / l * s)\<^sup>2 = (a\<^sup>2 + c\<^sup>2) * (s / l)\<^sup>2"
    by (cases "l = 0") (simp_all add: field_simps power2_eq_square)
  then have "sqrt ((a / l * s)\<^sup>2 + (c / l * s)\<^sup>2) = sqrt (a\<^sup>2 + c\<^sup>2) * \<bar>s / l\<bar>"
    by (simp add: real_sqrt_mult)
  then show ?thesis by (simp add: abs_divide)
qed

lemma horizontal_push_closed:
  "horizontal_push (wx, wy, wz) (px, py, pz) hp =
     \<bar>push_scale (sqrt ((wx - px)\<^sup>2 + (wz - pz)\<^sup>2)) hp\<bar>
       * sqrt ((wx - px)\<^sup>2 + (wz - pz)\<^sup>2)
       / sqrt ((wx - px)\<^sup>2 + (wy - py)\<^sup>2 + (wz - pz)\<^sup>2)"
  using scaled_direction_length [of "wx - px"
      "sqrt ((wx - px)\<^sup>2 + (wy - py)\<^sup>2 + (wz - pz)\<^sup>2)"
      "push_scale (sqrt ((wx - px)\<^sup>2 + (wz - pz)\<^sup>2)) hp" "wz - pz"]
  by (simp add: horizontal_push_def interactive_push_closed)

lemma sum3_squares_zero:
  fixes a b c :: real
  shows "a\<^sup>2 + b\<^sup>2 + c\<^sup>2 = 0 \<longleftrightarrow> a = 0 \<and> b = 0 \<and> c = 0"
  by (simp add: add_nonneg_eq_0_iff)

lemma interactive_push_continuous:
  "continuous_on (- {(px, py, pz)}) (\<lambda>v. interactive_push v (px, py, pz) hp)"
proof -
  have eq: "(\<lambda>v. interactive_push v (px, py, pz) hp) =
    (\<lambda>v. (fst v + (fst v - px) / sqrt ((fst v - px)\<^sup>2 + (fst (snd v) - py)\<^sup>2 + (snd (snd v) - pz)\<^sup>2)
             * ((max 0 (1 - sqrt ((fst v - px)\<^sup>2 + (snd (snd v) - pz)\<^sup>2) / interactRadius))\<^sup>2 * 12 * hp),
      fst (snd v) - ((max 0 (1 - sqrt ((fst v - px)\<^sup>2 + (snd (snd v) - pz)\<^sup>2) / interactRadius))\<^sup>2 * 12 * hp) * 0.5,
      snd (snd v) + (snd (snd v) - pz) / sqrt ((fst v - px)\<^sup>2 + (fst (snd v) - py)\<^sup>2 + (snd (snd v) - pz)\<^sup>2)
             * ((max 0 (1 - sqrt ((fst v - px)\<^sup>2 + (snd (snd v) - pz)\<^sup>2) / interactRadius))\<^sup>2 * 12 * hp)))"
  proof (rule ext)
    fix v :: "real \<times> real \<times> real"
    obtain wx wy wz where v: "v = (wx, wy, wz)" by (cases v) auto
    show "interactive_push v (px, py, pz) hp =
      (fst v + (fst v - px) / sqrt ((fst v - px)\<^sup>2 + (fst (snd v) - py)\<^sup>2 + (snd (snd v) - pz)\<^sup>2)
             * ((max 0 (1 - sqrt ((fst v - px)\<^sup>2 + (snd (snd v) - pz)\<^sup>2) / interactRadius))\<^sup>2 * 12 * hp),
      fst (snd v) - ((max 0 (1 - sqrt ((fst v - px)\<^sup>2 + (snd (snd v) - pz)\<^sup>2) / interactRadius))\<^sup>2 * 12 * hp) * 0.5,
      snd (snd v) + (snd (snd v) - pz) / sqrt ((fst v - px)\<^sup>2 + (fst (snd v) - py)\<^sup>2 + (snd (snd v) - pz)\<^sup>2)
             * ((max 0 (1 - sqrt ((fst v - px)\<^sup>2 + (snd (snd v) - pz)\<^sup>2) / interactRadius))\<^sup>2 * 12 * hp))"
      unfolding v interactive_push_closed push_scale_max by simp
  qed
  show ?thesis
    unfolding eq
    by (intro continuous_intros) (auto simp: interactRadius_def sum3_squares_zero)
qed


lemma push_scale_strict:
  assumes "0 < hp" "d1 < d2" "d2 \<le> interactRadius"
  shows "push_scale d2 hp < push_scale d1 hp"
proof -
  have a: "0 \<le> max 0 (1 - d2 / interactRadius)" by simp
  have b: "max 0 (1 - d2 / interactRadius) < max 0 (1 - d1 / interactRadius)"
    using assms by (simp add: interactRadius_def max_def)
  have "(max 0 (1 - d2 / interactRadius))\<^sup>2 < (max 0 (1 - d1 / interactRadius))\<^sup>2"
    using a b by (auto intro: power_strict_mono)
  then show ?thesis
    using assms(1) by (simp add: push_scale_max)
qed

lemma planar_le_spatial:
  fixes a b c :: real
  shows "sqrt (a\<^sup>2 + c\<^sup>2) \<le> sqrt (a\<^sup>2 + b\<^sup>2 + c\<^sup>2)"
  by (rule real_sqrt_le_mono) simp

text \<open>
  Claim C4, as the code has it. For a vertex away from the player position, at planar
  distance \<open>d\<close> and spatial distance \<open>l\<close> from the player: inside the radius 35 the shader
  moves it by \<open>(1 - d / 35)\<^sup>2 * 12 * heightPercent\<close> times the x and z parts of the unit
  vector from the player, and down by half that scalar; at the radius and beyond it
  moves nothing. The scalar is 0 at the radius, is strictly smaller at a larger distance
  up to the radius when \<open>heightPercent > 0\<close>, and is continuous at the radius. The length
  of the horizontal displacement is the scalar times \<open>d / l\<close>: at most the scalar, and equal
  to it for a vertex level with the player. The displaced position is a continuous
  function of the vertex position, at the radius as everywhere else.
\<close>

theorem grass_push_applied:
  fixes wx wy wz px py pz hp :: real
  defines "d \<equiv> sqrt ((wx - px)\<^sup>2 + (wz - pz)\<^sup>2)"
    and "l \<equiv> sqrt ((wx - px)\<^sup>2 + (wy - py)\<^sup>2 + (wz - pz)\<^sup>2)"
  assumes away: "(wx, wy, wz) \<noteq> (px, py, pz)"
  shows "(d < interactRadius \<longrightarrow>
            interactive_push (wx, wy, wz) (px, py, pz) hp =
              (wx + (wx - px) / l * ((1 - d / interactRadius)\<^sup>2 * 12 * hp),
               wy - (1 - d / interactRadius)\<^sup>2 * 12 * hp * 0.5,
               wz + (wz - pz) / l * ((1 - d / interactRadius)\<^sup>2 * 12 * hp))) \<and>
         (interactRadius \<le> d \<longrightarrow>
            interactive_push (wx, wy, wz) (px, py, pz) hp = (wx, wy, wz)) \<and>
         (d < interactRadius \<longrightarrow> push_scale d hp = (1 - d / interactRadius)\<^sup>2 * 12 * hp) \<and>
         push_scale interactRadius hp = 0 \<and>
         (0 < hp \<and> d1 < d2 \<and> d2 \<le> interactRadius \<longrightarrow> push_scale d2 hp < push_scale d1 hp) \<and>
         horizontal_push (wx, wy, wz) (px, py, pz) hp = \<bar>push_scale d hp\<bar> * d / l \<and>
         horizontal_push (wx, wy, wz) (px, py, pz) hp \<le> \<bar>push_scale d hp\<bar> \<and>
         (wy = py \<longrightarrow> horizontal_push (wx, wy, wz) (px, py, pz) hp = \<bar>push_scale d hp\<bar>) \<and>
         isCont (\<lambda>x. push_scale x hp) interactRadius \<and>
         isCont (\<lambda>v. interactive_push v (px, py, pz) hp) (wx, wy, wz)"
proof -
  have lpos: "0 < l"
    using away unfolding l_def
    by (auto simp: sum3_squares_zero intro!: real_sqrt_gt_zero
          simp: less_le sum_power2_ge_zero add_nonneg_nonneg)
  have dl: "d \<le> l"
    unfolding d_def l_def by (rule planar_le_spatial)
  have d0: "0 \<le> d"
    unfolding d_def by simp
  have inside: "interactive_push (wx, wy, wz) (px, py, pz) hp =
              (wx + (wx - px) / l * ((1 - d / interactRadius)\<^sup>2 * 12 * hp),
               wy - (1 - d / interactRadius)\<^sup>2 * 12 * hp * 0.5,
               wz + (wz - pz) / l * ((1 - d / interactRadius)\<^sup>2 * 12 * hp))"
    if "d < interactRadius"
    using that unfolding d_def l_def
    by (simp add: interactive_push_def pushFactor_def Let_def)
  have outside: "interactive_push (wx, wy, wz) (px, py, pz) hp = (wx, wy, wz)"
    if "interactRadius \<le> d"
    using that unfolding d_def by (simp add: interactive_push_def Let_def)
  have formula: "push_scale d hp = (1 - d / interactRadius)\<^sup>2 * 12 * hp" if "d < interactRadius"
    using that by (simp add: push_scale_def pushFactor_def)
  have zero: "push_scale interactRadius hp = 0"
    by (simp add: push_scale_def)
  have hor: "horizontal_push (wx, wy, wz) (px, py, pz) hp = \<bar>push_scale d hp\<bar> * d / l"
    unfolding d_def l_def by (rule horizontal_push_closed)
  have "\<bar>push_scale d hp\<bar> * d \<le> \<bar>push_scale d hp\<bar> * l"
    using dl by (intro mult_left_mono) simp_all
  then have "\<bar>push_scale d hp\<bar> * d / l \<le> \<bar>push_scale d hp\<bar>"
    using lpos by (simp add: pos_divide_le_eq)
  then have le: "horizontal_push (wx, wy, wz) (px, py, pz) hp \<le> \<bar>push_scale d hp\<bar>"
    unfolding hor .
  have level: "horizontal_push (wx, wy, wz) (px, py, pz) hp = \<bar>push_scale d hp\<bar>" if "wy = py"
  proof -
    have "l = d" using that unfolding d_def l_def by simp
    then show ?thesis using lpos unfolding hor by simp
  qed
  have "continuous_on UNIV (\<lambda>x. push_scale x hp)"
    unfolding push_scale_max by (auto intro!: continuous_intros simp: interactRadius_def)
  then have c1: "isCont (\<lambda>x. push_scale x hp) interactRadius"
    by (simp add: continuous_on_eq_continuous_at)
  have "open (- {(px, py, pz)})"
    by (simp add: open_Compl)
  then have c2: "isCont (\<lambda>v. interactive_push v (px, py, pz) hp) (wx, wy, wz)"
    using interactive_push_continuous [of px py pz hp] away
    by (simp add: continuous_on_eq_continuous_at)
  show ?thesis
    using inside outside formula zero push_scale_strict [of hp d1 d2] hor le level c1 c2
    by blast
qed

lemma sqrt_9: "sqrt 9 = 3" and sqrt_25: "sqrt 25 = 5" and sqrt_16: "sqrt 16 = 4"
  using real_sqrt_abs [of 3] real_sqrt_abs [of 5] real_sqrt_abs [of 4] by simp_all

theorem grass_push_applied_witness:
  "interactive_push (3, 3, 0) (0, 7, 0) (2 / 3)
     = (3 + 3 / 5 * (8192 / 1225), 3 - 4096 / 1225, 0) \<and>
   interactive_push (35, 3, 0) (0, 7, 0) (2 / 3) = (35, 3, 0) \<and>
   push_scale 28 (2 / 3) < push_scale 7 (2 / 3) \<and>
   horizontal_push (3, 7, 0) (0, 7, 0) (2 / 3) = 8192 / 1225"
proof -
  have a: "((3::real), (3::real), (0::real)) \<noteq> (0, 7, 0)"
    and b: "((35::real), (3::real), (0::real)) \<noteq> (0, 7, 0)"
    and c: "((3::real), (7::real), (0::real)) \<noteq> (0, 7, 0)"
    by simp_all
  have 1: "interactive_push (3, 3, 0) (0, 7, 0) (2 / 3)
     = (3 + 3 / 5 * (8192 / 1225), 3 - 4096 / 1225, 0)"
    using grass_push_applied [OF a, of "2 / 3"]
    by (simp add: sqrt_9 sqrt_25 interactRadius_def power2_eq_square)
  have 2: "interactive_push (35, 3, 0) (0, 7, 0) (2 / 3) = (35, 3, 0)"
    using grass_push_applied [OF b, of "2 / 3"]
    by (simp add: interactRadius_def)
  have 3: "push_scale 28 (2 / 3) < push_scale 7 (2 / 3)"
    using grass_push_applied [OF a, of "2 / 3" 7 28]
    by (simp add: interactRadius_def)
  have ps: "push_scale 3 (2 / 3) = 8192 / 1225"
    by (simp add: push_scale_def pushFactor_def interactRadius_def power2_eq_square)
  have 4: "horizontal_push (3, 7, 0) (0, 7, 0) (2 / 3) = 8192 / 1225"
    using grass_push_applied [OF c, of "2 / 3"]
    by (simp add: sqrt_9 ps)
  show ?thesis using 1 2 3 4 by blast
qed

text \<open>
  Claim C4 as stated fails: the length of the push is not the formula and does not
  decrease with the distance. With the player at height 7 and \<open>heightPercent = 2/3\<close>, a
  vertex at height 3 and planar distance 3 is pushed by 3/5 of the formula's value, and
  a vertex straight below the player, at planar distance 0 where the formula gives 8,
  is not pushed sideways at all, which is less than at distance 3.
\<close>

theorem horizontal_push_is_not_the_formula:
  "horizontal_push (3, 3, 0) (0, 7, 0) (2 / 3) = 3 / 5 * ((1 - 3 / 35)\<^sup>2 * 12 * (2 / 3)) \<and>
   horizontal_push (3, 3, 0) (0, 7, 0) (2 / 3) \<noteq> (1 - 3 / 35)\<^sup>2 * 12 * (2 / 3) \<and>
   horizontal_push (0, 3, 0) (0, 7, 0) (2 / 3) = 0 \<and>
   (1 - 0 / 35)\<^sup>2 * 12 * (2 / 3) = (8::real) \<and>
   horizontal_push (0, 3, 0) (0, 7, 0) (2 / 3) < horizontal_push (3, 3, 0) (0, 7, 0) (2 / 3)"
proof -
  have a: "horizontal_push (3, 3, 0) (0, 7, 0) (2 / 3) = 3 / 5 * ((1 - 3 / 35)\<^sup>2 * 12 * (2 / 3))"
    by (simp add: horizontal_push_closed sqrt_9 sqrt_25 push_scale_def pushFactor_def
          interactRadius_def power2_eq_square)
  have b: "horizontal_push (0, 3, 0) (0, 7, 0) (2 / 3) = 0"
    by (simp add: horizontal_push_closed)
  show ?thesis
    unfolding a b by (simp add: power2_eq_square)
qed

lemma glsl_mod_range:
  assumes "0 < y"
  shows "0 \<le> glsl_mod x y \<and> glsl_mod x y < y"
proof -
  have "of_int \<lfloor>x / y\<rfloor> * y \<le> x"
    using assms pos_le_divide_eq [of y "of_int \<lfloor>x / y\<rfloor>" x] by simp
  then have lo: "y * of_int \<lfloor>x / y\<rfloor> \<le> x"
    by (simp add: mult.commute)
  have "x / y < of_int \<lfloor>x / y\<rfloor> + 1" by linarith
  then have "x < (of_int \<lfloor>x / y\<rfloor> + 1) * y"
    using assms pos_divide_less_eq [of y x "of_int \<lfloor>x / y\<rfloor> + 1"] by simp
  then have hi: "x < y * (of_int \<lfloor>x / y\<rfloor> + 1)"
    by (simp add: mult.commute)
  show ?thesis
    using lo hi by (simp add: glsl_mod_def algebra_simps)
qed

text \<open>
  Claim C5. Whatever the time, the speed, the particle's random factor and its initial
  height, the height the weather shader computes lies in the band from -100 to 100. The
  alpha it derives from a height is 0 at 100 and at -100 and is 1 at mid-band, height 0.
\<close>

theorem weather_band:
  "- 100 \<le> weather_y uTime uSpeed aRandom pos_y \<and>
   weather_y uTime uSpeed aRandom pos_y \<le> 100 \<and>
   weather_alpha 100 = 0 \<and> weather_alpha (- 100) = 0 \<and> weather_alpha 0 = 1"
proof -
  have "0 \<le> glsl_mod (100 - pos_y + uTime * uSpeed * (0.8 + 0.4 * aRandom)) 200
      \<and> glsl_mod (100 - pos_y + uTime * uSpeed * (0.8 + 0.4 * aRandom)) 200 < 200"
    by (rule glsl_mod_range) simp
  then have "- 100 \<le> weather_y uTime uSpeed aRandom pos_y \<and>
   weather_y uTime uSpeed aRandom pos_y \<le> 100"
    by (simp add: weather_y_def Let_def)
  moreover have "weather_alpha 100 = 0 \<and> weather_alpha (- 100) = 0 \<and> weather_alpha 0 = 1"
    by (simp add: weather_alpha_def smoothstep_def glsl_clamp_def Let_def)
  ultimately show ?thesis by blast
qed

theorem weather_band_witness:
  "weather_y 1 10 0.5 0 = - 10 \<and> - 100 \<le> weather_y 1 10 0.5 0 \<and> weather_y 1 10 0.5 0 \<le> 100"
proof -
  have "weather_y 1 10 0.5 0 = - 10"
    by (simp add: weather_y_def glsl_mod_def Let_def)
  then show ?thesis
    using weather_band [of 1 10 "0.5" 0] by blast
qed

section \<open>Properties of the environment blender\<close>

lemma channel_rates_list:
  "channel_rates = [0.05, 0.05, 0.05, 0.05, 0.05, 0.05, 0.05, 0.05, 0.05, 0.05, 0.05, 0.05,
                    0.05, 0.05, 0.05, 0.05, 0.05, 0.05, 0.02]"
  by (simp add: channel_rates_def numeral_eq_Suc)

lemma blend_channels:
  "env_channels (blend st e) =
     map (\<lambda>(c, t, r). c + (t - c) * r)
       (zip (env_channels e) (zip (target_channels (targets (emotion st))) channel_rates))"
  by (simp add: channel_rates_list env_channels_def target_channels_def color_channels_def
        blend_def lerp_def Let_def)

lemma channels_length:
  "length (env_channels e) = 19" "length (target_channels tg) = 19" "length channel_rates = 19"
  by (simp_all add: env_channels_def target_channels_def color_channels_def channel_rates_def)

lemma blend_channel:
  assumes "i < 19"
  shows "env_channels (blend st e) ! i =
           env_channels e ! i
             + (target_channels (targets (emotion st)) ! i - env_channels e ! i) * channel_rates ! i"
  using assms by (simp add: blend_channels channels_length)

lemma channel_rate_cases:
  assumes "i < 19"
  shows "channel_rates ! i = (if i = 18 then 0.02 else 0.05)"
proof (cases "i = 18")
  case True
  then show ?thesis by (simp add: channel_rates_def nth_append)
next
  case False
  with assms have "i < 18" by simp
  then show ?thesis by (simp add: channel_rates_def nth_append)
qed

lemma smoothing_sequence:
  fixes c :: "nat \<Rightarrow> real"
  assumes step: "\<And>n. c (Suc n) = c n + (t - c n) * r" and r: "0 < r" "r < 1"
  shows "(\<forall>n. \<bar>c (Suc n) - t\<bar> \<le> \<bar>c n - t\<bar>) \<and>
         (\<forall>n. (c n \<le> t \<longrightarrow> c n \<le> c (Suc n) \<and> c (Suc n) \<le> t) \<and>
              (t \<le> c n \<longrightarrow> t \<le> c (Suc n) \<and> c (Suc n) \<le> c n)) \<and>
         c \<longlonglongrightarrow> t"
proof -
  have d: "c (Suc n) - t = (1 - r) * (c n - t)" for n
    by (simp add: step algebra_simps)
  have cf: "c n - t = (1 - r) ^ n * (c 0 - t)" for n
    by (induction n) (simp_all add: d)
  have a: "\<bar>c (Suc n) - t\<bar> \<le> \<bar>c n - t\<bar>" for n
  proof -
    have "\<bar>c (Suc n) - t\<bar> = (1 - r) * \<bar>c n - t\<bar>"
      using r by (simp add: d abs_mult)
    also have "\<dots> \<le> 1 * \<bar>c n - t\<bar>"
      using r by (intro mult_right_mono) simp_all
    finally show ?thesis by simp
  qed
  have up: "c n \<le> c (Suc n) \<and> c (Suc n) \<le> t" if "c n \<le> t" for n
  proof -
    have p: "0 \<le> (t - c n) * r"
      using that r by simp
    have q: "(t - c n) * r \<le> t - c n"
      using that r mult_left_mono [of r 1 "t - c n"] by simp
    show ?thesis
      using p q step [of n] by linarith
  qed
  have down: "t \<le> c (Suc n) \<and> c (Suc n) \<le> c n" if "t \<le> c n" for n
  proof -
    have p: "0 \<le> (c n - t) * r"
      using that r by simp
    have q: "(c n - t) * r \<le> c n - t"
      using that r mult_left_mono [of r 1 "c n - t"] by simp
    have e: "c (Suc n) = c n - (c n - t) * r"
      using step [of n] by (simp add: algebra_simps)
    show ?thesis
      using p q e by linarith
  qed
  have "(\<lambda>n. (1 - r) ^ n * (c 0 - t)) \<longlonglongrightarrow> 0"
    using r by (auto intro!: tendsto_eq_intros LIMSEQ_realpow_zero)
  moreover have "(\<lambda>n. c n - t) = (\<lambda>n. (1 - r) ^ n * (c 0 - t))"
    by (rule ext) (rule cf)
  ultimately have "(\<lambda>n. c n - t) \<longlonglongrightarrow> 0"
    by (simp only:)
  then have lim: "c \<longlonglongrightarrow> t"
    by (simp add: LIM_zero_iff)
  show ?thesis using a up down lim by blast
qed

lemma shards_stage_env [simp]: "env (fst (shards_stage rnd s)) = env s"
  by (simp add: shards_stage_def split: prod.split)

lemma movement_env [simp]: "env (movement st s) = env s"
  by (simp add: movement_def Let_def)

lemma distFromCenter_time [simp]: "distFromCenter (s\<lparr> timeRef := t \<rparr>) = distFromCenter s"
  by (simp add: distFromCenter_def)

lemma animate_env:
  assumes "\<not> isPaused" "distFromCenter s \<le> GAME_OVER_RADIUS"
  shows "env (fst (animate isPaused st rnd s)) = blend st (env s)"
  using assms by (simp add: animate_def Let_def case_prod_unfold)

text \<open>
  Claim C6. A tick that is neither paused nor past the boundary replaces the live
  environment by \<open>blend\<close> of it. Under \<open>blend\<close> each of the 19 smoothed channels (grass base
  and tip colour, sun colour, weather colour, speed, sway and size, halo colour and
  opacity) becomes \<open>current + (target - current) * rate\<close>, with rate 0.02 for the halo
  opacity (channel 18) and 0.05 for every other channel. While the emotion, and so the
  target, stays the same, the distance of a channel to its target never grows, the
  channel stays on its side of the target (no overshoot) and moves toward it, and it
  converges to the target.
\<close>

theorem environment_smoothing:
  fixes sts :: "nat \<Rightarrow> SystemState" and live :: Env
  defines "c \<equiv> \<lambda>i n. env_channels (run_blend sts n live) ! i"
  assumes emo: "\<forall>n. emotion (sts n) = em" and i: "i < length channel_rates"
  shows "(\<not> isPaused \<and> distFromCenter s \<le> GAME_OVER_RADIUS
            \<longrightarrow> env (fst (animate isPaused st rnd s)) = blend st (env s)) \<and>
         length (env_channels live) = length channel_rates \<and>
         length (target_channels (targets em)) = length channel_rates \<and>
         channel_rates ! i = (if i = 18 then 0.02 else 0.05) \<and>
         (\<forall>n. c i (Suc n) = c i n + (target_channels (targets em) ! i - c i n) * channel_rates ! i) \<and>
         (\<forall>n. \<bar>c i (Suc n) - target_channels (targets em) ! i\<bar>
                 \<le> \<bar>c i n - target_channels (targets em) ! i\<bar>) \<and>
         (\<forall>n. (c i n \<le> target_channels (targets em) ! i \<longrightarrow>
                  c i n \<le> c i (Suc n) \<and> c i (Suc n) \<le> target_channels (targets em) ! i) \<and>
              (target_channels (targets em) ! i \<le> c i n \<longrightarrow>
                  target_channels (targets em) ! i \<le> c i (Suc n) \<and> c i (Suc n) \<le> c i n)) \<and>
         c i \<longlonglongrightarrow> target_channels (targets em) ! i"
proof -
  have i19: "i < 19" using i by (simp add: channels_length)
  have rate: "channel_rates ! i = (if i = 18 then 0.02 else 0.05)"
    using i19 by (rule channel_rate_cases)
  have r: "0 < channel_rates ! i" "channel_rates ! i < 1"
    by (simp_all add: rate)
  have step: "c i (Suc n) = c i n + (target_channels (targets em) ! i - c i n) * channel_rates ! i"
    for n
    unfolding c_def using blend_channel [OF i19, of "sts n" "run_blend sts n live"] emo by simp
  show ?thesis
    using smoothing_sequence [of "c i" "target_channels (targets em) ! i" "channel_rates ! i",
        OF step r] rate step animate_env [of isPaused s st rnd]
    by (simp add: channels_length)
qed

theorem environment_smoothing_witness:
  "env_channels (run_blend (\<lambda>n. initial_SystemState\<lparr> emotion := HAPPY \<rparr>) 1 init_env) ! 18 = 0.012 \<and>
   target_channels (targets HAPPY) ! 18 = 0.6 \<and>
   (\<lambda>n. env_channels (run_blend (\<lambda>n. initial_SystemState\<lparr> emotion := HAPPY \<rparr>) n init_env) ! 18)
      \<longlonglongrightarrow> 0.6"
proof -
  have emo: "\<forall>n. emotion (initial_SystemState\<lparr> emotion := HAPPY \<rparr>) = HAPPY"
    by simp
  have i: "18 < length channel_rates"
    by (simp add: channel_rates_def)
  have t: "target_channels (targets HAPPY) ! 18 = 0.6"
    by (simp add: target_channels_def color_channels_def declared_targets_def)
  have one: "env_channels (run_blend (\<lambda>n. initial_SystemState\<lparr> emotion := HAPPY \<rparr>) 1 init_env) ! 18
               = 0.012"
    by (simp add: env_channels_def color_channels_def blend_def Let_def init_env_def
          declared_targets_def)
  have "(\<lambda>n. env_channels (run_blend (\<lambda>n. initial_SystemState\<lparr> emotion := HAPPY \<rparr>) n init_env) ! 18)
      \<longlonglongrightarrow> target_channels (targets HAPPY) ! 18"
    using environment_smoothing [OF emo i, where live = init_env] by blast
  then have "(\<lambda>n. env_channels (run_blend (\<lambda>n. initial_SystemState\<lparr> emotion := HAPPY \<rparr>) n init_env) ! 18)
      \<longlonglongrightarrow> 0.6"
    unfolding t .
  with t one show ?thesis by blast
qed

section \<open>Properties of the shard ring\<close>

lemma shard_step_events:
  "snd (snd (shard_step rnd t px pz i sh k)) =
     (if planar_dist sh px pz < 10 then [CollectShard] else [])"
  by (simp add: shard_step_def Let_def planar_dist_def)

lemma shard_step_near:
  assumes "planar_dist sh px pz < 10"
  shows "shard_visible (fst (shard_step rnd t px pz i sh k)) \<and>
         shard_x (fst (shard_step rnd t px pz i sh k)) = px + (rnd k - 0.5) * 2000 \<and>
         shard_y (fst (shard_step rnd t px pz i sh k)) = 5 \<and>
         shard_z (fst (shard_step rnd t px pz i sh k)) = pz + (rnd (k + 1) - 0.5) * 2000"
  using assms by (simp add: shard_step_def Let_def planar_dist_def)

lemma shard_step_far:
  assumes "planar_dist sh px pz > 8000"
  shows "shard_visible (fst (shard_step rnd t px pz i sh k)) = shard_visible sh \<and>
         shard_x (fst (shard_step rnd t px pz i sh k)) = px + (rnd k - 0.5) * 4000 \<and>
         shard_y (fst (shard_step rnd t px pz i sh k)) = 5 \<and>
         shard_z (fst (shard_step rnd t px pz i sh k)) = pz + (rnd (k + 1) - 0.5) * 4000"
  using assms by (simp add: shard_step_def Let_def planar_dist_def)

lemma shard_step_between:
  assumes "10 \<le> planar_dist sh px pz" "planar_dist sh px pz \<le> 8000"
  shows "shard_visible (fst (shard_step rnd t px pz i sh k)) = shard_visible sh \<and>
         shard_x (fst (shard_step rnd t px pz i sh k)) = shard_x sh \<and>
         shard_z (fst (shard_step rnd t px pz i sh k)) = shard_z sh"
  using assms by (simp add: shard_step_def Let_def planar_dist_def)

lemma random_band:
  fixes r w :: real
  assumes "0 \<le> r" "r < 1" "0 \<le> w"
  shows "\<bar>(r - 0.5) * (2 * w)\<bar> \<le> w"
proof -
  have "\<bar>r - 0.5\<bar> \<le> 0.5" using assms by linarith
  then have "\<bar>r - 0.5\<bar> * (2 * w) \<le> 0.5 * (2 * w)"
    using assms(3) by (intro mult_right_mono) simp_all
  then show ?thesis using assms(3) by (simp add: abs_mult)
qed

lemma shard_step_counter:
  "fst (snd (shard_step rnd t px pz i sh k)) = (if relocates sh px pz then k + 2 else k)"
  by (simp add: shard_step_def Let_def planar_dist_def relocates_def)

lemma draw_index_last:
  assumes "n < length shs"
  shows "draw_index k (take (Suc n) shs) px pz n = k"
  using assms by (simp add: draw_index_def)

lemma draw_index_step:
  assumes "n < length shs" "j < n"
  shows "draw_index (if relocates (shs ! n) px pz then k + 2 else k) (take n shs) px pz j
           = draw_index k (take (Suc n) shs) px pz j"
  using assms by (simp add: draw_index_def take_Suc_conv_app_nth)

lemma shards_loop_inv:
  assumes "n \<le> length shs"
  shows "\<exists>shs' es.
           shards_loop rnd t px pz n (shs, k, evs)
             = (shs', k + 2 * length (filter (\<lambda>sh. relocates sh px pz) (take n shs)), evs @ es) \<and>
           length shs' = length shs \<and>
           (\<forall>j<n. shs' ! j
               = fst (shard_step rnd t px pz j (shs ! j) (draw_index k (take n shs) px pz j))) \<and>
           (\<forall>j. n \<le> j \<longrightarrow> shs' ! j = shs ! j) \<and>
           es = concat (map (\<lambda>sh. if planar_dist sh px pz < 10 then [CollectShard] else [])
                          (rev (take n shs)))"
  using assms
proof (induction n arbitrary: shs k evs)
  case 0
  show ?case by simp
next
  case (Suc n)
  let ?k1 = "if relocates (shs ! n) px pz then k + 2 else k"
  obtain sh1 e1 where st: "shard_step rnd t px pz n (shs ! n) k = (sh1, ?k1, e1)"
    using shard_step_counter [of rnd t px pz n "shs ! n" k]
    by (cases "shard_step rnd t px pz n (shs ! n) k") auto
  have e1: "e1 = (if planar_dist (shs ! n) px pz < 10 then [CollectShard] else [])"
    using shard_step_events [of rnd t px pz n "shs ! n" k] st by simp
  have sh1: "sh1 = fst (shard_step rnd t px pz n (shs ! n) k)"
    using st by simp
  have n: "n < length shs" using Suc.prems by simp
  then have "n \<le> length (shs[n := sh1])" by simp
  from Suc.IH [OF this, of ?k1 "evs @ e1"]
  obtain shs' es where
    loop: "shards_loop rnd t px pz n (shs[n := sh1], ?k1, evs @ e1)
             = (shs', ?k1 + 2 * length (filter (\<lambda>sh. relocates sh px pz) (take n (shs[n := sh1]))),
                (evs @ e1) @ es)"
    and len: "length shs' = length (shs[n := sh1])"
    and prev: "\<forall>j<n. shs' ! j
                 = fst (shard_step rnd t px pz j (shs[n := sh1] ! j)
                          (draw_index ?k1 (take n (shs[n := sh1])) px pz j))"
    and rest: "\<forall>j. n \<le> j \<longrightarrow> shs' ! j = shs[n := sh1] ! j"
    and es: "es = concat (map (\<lambda>sh. if planar_dist sh px pz < 10 then [CollectShard] else [])
                          (rev (take n (shs[n := sh1]))))"
    by blast
  have cnt: "?k1 + 2 * length (filter (\<lambda>sh. relocates sh px pz) (take n (shs[n := sh1])))
               = k + 2 * length (filter (\<lambda>sh. relocates sh px pz) (take (Suc n) shs))"
    using n by (simp add: take_Suc_conv_app_nth)
  have a: "shards_loop rnd t px pz (Suc n) (shs, k, evs)
             = (shs', k + 2 * length (filter (\<lambda>sh. relocates sh px pz) (take (Suc n) shs)),
                evs @ (e1 @ es))"
    using loop st unfolding cnt by simp
  have b: "length shs' = length shs" using len by simp
  have c: "shs' ! j = fst (shard_step rnd t px pz j (shs ! j)
                             (draw_index k (take (Suc n) shs) px pz j))"
    if "j < Suc n" for j
  proof (cases "j = n")
    case True
    then have "shs' ! j = sh1" using rest n by simp
    then show ?thesis using sh1 True draw_index_last [OF n] by simp
  next
    case False
    with that have j: "j < n" by simp
    then have "shs' ! j = fst (shard_step rnd t px pz j (shs ! j)
                                 (draw_index ?k1 (take n shs) px pz j))"
      using prev by simp
    then show ?thesis
      unfolding draw_index_step [OF n j] .
  qed
  have d: "shs' ! j = shs ! j" if "Suc n \<le> j" for j
    using rest that by simp
  have e: "e1 @ es = concat (map (\<lambda>sh. if planar_dist sh px pz < 10 then [CollectShard] else [])
                          (rev (take (Suc n) shs)))"
    using n by (simp add: es e1 take_Suc_conv_app_nth)
  show ?case using a b c d e by blast
qed

lemma concat_events_count:
  "count_list (concat (map (\<lambda>sh. if P sh then [CollectShard] else []) xs)) CollectShard
     = length (filter P xs)"
  by (induction xs) simp_all

lemma concat_events_set:
  "set (concat (map (\<lambda>sh. if P sh then [CollectShard] else []) xs)) \<subseteq> {CollectShard}"
  by (induction xs) auto

lemma shards_stage_inv:
  "\<exists>shs' es.
     shards_stage rnd s
       = (s\<lparr> shards := shs',
              rng_next := rng_next s
                + 2 * length (filter (\<lambda>sh. relocates sh (player_x s) (player_z s)) (shards s)) \<rparr>,
          es) \<and>
     length shs' = length (shards s) \<and>
     (\<forall>j<length (shards s). shs' ! j
          = fst (shard_step rnd (timeRef s) (player_x s) (player_z s) j (shards s ! j)
                   (draw_index (rng_next s) (shards s) (player_x s) (player_z s) j))) \<and>
     count_list es CollectShard
       = length (filter (\<lambda>sh. planar_dist sh (player_x s) (player_z s) < 10) (shards s)) \<and>
     set es \<subseteq> {CollectShard}"
proof -
  obtain shs' es where
    loop: "shards_loop rnd (timeRef s) (player_x s) (player_z s) (length (shards s))
             (shards s, rng_next s, [])
           = (shs', rng_next s + 2 * length (filter (\<lambda>sh. relocates sh (player_x s) (player_z s))
                                              (take (length (shards s)) (shards s))),
              [] @ es)"
    and len: "length shs' = length (shards s)"
    and prev: "\<forall>j<length (shards s). shs' ! j
          = fst (shard_step rnd (timeRef s) (player_x s) (player_z s) j (shards s ! j)
                   (draw_index (rng_next s) (take (length (shards s)) (shards s))
                      (player_x s) (player_z s) j))"
    and es: "es = concat (map (\<lambda>sh. if planar_dist sh (player_x s) (player_z s) < 10
                                     then [CollectShard] else [])
                          (rev (take (length (shards s)) (shards s))))"
    using shards_loop_inv [of "length (shards s)" "shards s" rnd "timeRef s" "player_x s"
        "player_z s" "rng_next s" "[]"]
    by blast
  have "shards_stage rnd s
       = (s\<lparr> shards := shs',
              rng_next := rng_next s
                + 2 * length (filter (\<lambda>sh. relocates sh (player_x s) (player_z s)) (shards s)) \<rparr>,
          es)"
    using loop by (simp add: shards_stage_def)
  moreover have "count_list es CollectShard
       = length (filter (\<lambda>sh. planar_dist sh (player_x s) (player_z s) < 10) (shards s))"
    unfolding es concat_events_count by (simp add: rev_filter [symmetric])
  moreover have "set es \<subseteq> {CollectShard}"
    unfolding es by (rule concat_events_set)
  ultimately show ?thesis using len prev by auto
qed

lemma animate_paused: "animate True st rnd s = (s, [])"
  by (simp add: animate_def)

lemma animate_beyond:
  assumes "\<not> isPaused" "distFromCenter s > GAME_OVER_RADIUS"
  shows "animate isPaused st rnd s = (s\<lparr> timeRef := timeRef s + 0.01 \<rparr>, [GameOver])"
  using assms by (simp add: animate_def Let_def)

lemma animate_running:
  assumes "\<not> isPaused" "distFromCenter s \<le> GAME_OVER_RADIUS"
  shows "\<exists>shs' es.
           animate isPaused st rnd s
             = ((movement st (s\<lparr> timeRef := timeRef s + 0.01 \<rparr>))
                  \<lparr> shards := shs',
                    rng_next := rng_next s
                      + 2 * length (filter (\<lambda>sh. relocates sh (player_x (movement st s))
                                                    (player_z (movement st s))) (shards s)),
                    env := blend st (env s) \<rparr>, es) \<and>
           length shs' = length (shards s) \<and>
           (\<forall>j<length (shards s). shs' ! j
               = fst (shard_step rnd (timeRef s + 0.01)
                       (player_x (movement st s)) (player_z (movement st s)) j (shards s ! j)
                       (draw_index (rng_next s) (shards s) (player_x (movement st s))
                          (player_z (movement st s)) j))) \<and>
           count_list es CollectShard
             = length (filter (\<lambda>sh. planar_dist sh (player_x (movement st s))
                                       (player_z (movement st s)) < 10) (shards s)) \<and>
           set es \<subseteq> {CollectShard}"
proof -
  let ?s2 = "movement st (s\<lparr> timeRef := timeRef s + 0.01 \<rparr>)"
  have f: "shards ?s2 = shards s" "timeRef ?s2 = timeRef s + 0.01"
    "player_x ?s2 = player_x (movement st s)" "player_z ?s2 = player_z (movement st s)"
    "env ?s2 = env s" "rng_next ?s2 = rng_next s"
    by (simp_all add: movement_def Let_def)
  obtain shs' es where
    st: "shards_stage rnd ?s2
           = (?s2\<lparr> shards := shs',
                   rng_next := rng_next ?s2
                     + 2 * length (filter (\<lambda>sh. relocates sh (player_x ?s2) (player_z ?s2))
                                      (shards ?s2)) \<rparr>, es)"
    and rest: "length shs' = length (shards ?s2)"
      "\<forall>j<length (shards ?s2). shs' ! j
          = fst (shard_step rnd (timeRef ?s2) (player_x ?s2) (player_z ?s2) j (shards ?s2 ! j)
                   (draw_index (rng_next ?s2) (shards ?s2) (player_x ?s2) (player_z ?s2) j))"
      "count_list es CollectShard
         = length (filter (\<lambda>sh. planar_dist sh (player_x ?s2) (player_z ?s2) < 10) (shards ?s2))"
      "set es \<subseteq> {CollectShard}"
    using shards_stage_inv [of rnd ?s2] by blast
  have "animate isPaused st rnd s
          = (?s2\<lparr> shards := shs',
                  rng_next := rng_next s
                      + 2 * length (filter (\<lambda>sh. relocates sh (player_x (movement st s))
                                                    (player_z (movement st s))) (shards s)),
                  env := blend st (env s) \<rparr>, es)"
    using assms st unfolding f by (simp add: animate_def Let_def f(5))
  then show ?thesis
    using rest unfolding f by blast
qed

lemma animate_shards_length:
  "length (shards (fst (animate isPaused st rnd s))) = length (shards s)"
proof (cases isPaused)
  case True
  then show ?thesis by (simp add: animate_paused)
next
  case False
  show ?thesis
  proof (cases "distFromCenter s > GAME_OVER_RADIUS")
    case True
    then show ?thesis using False by (simp add: animate_beyond)
  next
    case False
    then have "distFromCenter s \<le> GAME_OVER_RADIUS" by simp
    from animate_running [OF \<open>\<not> isPaused\<close> this, of st rnd]
    show ?thesis by auto
  qed
qed

lemma run_shards_length: "length (shards (fst (run rnd fs s))) = length (shards s)"
proof (induction fs arbitrary: s)
  case Nil
  show ?case by simp
next
  case (Cons f fs)
  obtain p st where f: "f = (p, st)" by (cases f)
  have "length (shards (fst (run rnd (f # fs) s)))
          = length (shards (fst (run rnd fs (fst (animate p st rnd s)))))"
    by (simp add: f case_prod_unfold)
  then show ?case
    by (simp add: Cons.IH animate_shards_length)
qed

lemma init_shards_length: "length (fst (init_shards rnd n k)) = n"
  by (induction n) (simp_all add: case_prod_unfold)

lemma init_sim_shards: "length (shards (init_sim rnd k)) = 150"
  by (simp add: init_sim_def case_prod_unfold init_shards_length)

text \<open>
  Claim C3. Take a tick that runs its simulation step (not paused, player within the
  game-over radius), random numbers in \<open>[0, 1)\<close>, and the shard of index \<open>i\<close>; distances
  are planar distances to the player position of this tick, and \<open>kd\<close> is the counter of
  the random supply when the loop reaches the shard. If the shard is nearer than 10, it
  ends the tick visible, at height 5, at the player position plus \<open>(rnd kd - 0.5) * 2000\<close>
  in x and \<open>(rnd (kd + 1) - 0.5) * 2000\<close> in z, so within 1000 of the player on both axes,
  and its step signals exactly one pickup. If it is farther than 8000, it ends at the
  player position plus the same two draws times 4000, so within 2000 on both axes, and
  signals nothing. Otherwise it keeps its planar position and signals nothing. The tick
  signals as many pickups as there are shards nearer than 10 and no game over, and
  takes two draws for every shard it moves. The pool keeps its size in the tick and in
  every run of frames, and is built with 150 shards.
\<close>

theorem shard_pickup_and_respawn:
  fixes s :: Sim and isPaused :: bool and st :: SystemState and rnd :: rng and i :: nat
  defines "s' \<equiv> fst (animate isPaused st rnd s)"
    and "evs \<equiv> snd (animate isPaused st rnd s)"
  defines "d \<equiv> planar_dist (shards s ! i) (player_x s') (player_z s')"
    and "kd \<equiv> draw_index (rng_next s) (shards s) (player_x s') (player_z s') i"
  assumes tick: "\<not> isPaused" "distFromCenter s \<le> GAME_OVER_RADIUS"
    and rnd: "\<forall>k. 0 \<le> rnd k \<and> rnd k < 1"
    and i: "i < length (shards s)"
  shows "(d < 10 \<longrightarrow>
            shard_visible (shards s' ! i) \<and>
            shard_x (shards s' ! i) = player_x s' + (rnd kd - 0.5) * 2000 \<and>
            shard_y (shards s' ! i) = 5 \<and>
            shard_z (shards s' ! i) = player_z s' + (rnd (kd + 1) - 0.5) * 2000 \<and>
            \<bar>shard_x (shards s' ! i) - player_x s'\<bar> \<le> 1000 \<and>
            \<bar>shard_z (shards s' ! i) - player_z s'\<bar> \<le> 1000) \<and>
         (d > 8000 \<longrightarrow>
            shard_visible (shards s' ! i) = shard_visible (shards s ! i) \<and>
            shard_x (shards s' ! i) = player_x s' + (rnd kd - 0.5) * 4000 \<and>
            shard_y (shards s' ! i) = 5 \<and>
            shard_z (shards s' ! i) = player_z s' + (rnd (kd + 1) - 0.5) * 4000 \<and>
            \<bar>shard_x (shards s' ! i) - player_x s'\<bar> \<le> 2000 \<and>
            \<bar>shard_z (shards s' ! i) - player_z s'\<bar> \<le> 2000) \<and>
         (10 \<le> d \<and> d \<le> 8000 \<longrightarrow>
            shard_visible (shards s' ! i) = shard_visible (shards s ! i) \<and>
            shard_x (shards s' ! i) = shard_x (shards s ! i) \<and>
            shard_z (shards s' ! i) = shard_z (shards s ! i)) \<and>
         snd (snd (shard_step rnd (timeRef s') (player_x s') (player_z s') i (shards s ! i) k))
           = (if d < 10 then [CollectShard] else []) \<and>
         count_list evs CollectShard
           = length (filter (\<lambda>sh. planar_dist sh (player_x s') (player_z s') < 10) (shards s)) \<and>
         GameOver \<notin> set evs \<and>
         rng_next s' = rng_next s
           + 2 * length (filter (\<lambda>sh. relocates sh (player_x s') (player_z s')) (shards s)) \<and>
         length (shards s') = length (shards s) \<and>
         length (shards (fst (run rnd fs s))) = length (shards s) \<and>
         length (shards (init_sim rnd k0)) = 150"
proof -
  obtain shs' es where
    an: "animate isPaused st rnd s
             = ((movement st (s\<lparr> timeRef := timeRef s + 0.01 \<rparr>))
                  \<lparr> shards := shs',
                    rng_next := rng_next s
                      + 2 * length (filter (\<lambda>sh. relocates sh (player_x (movement st s))
                                                    (player_z (movement st s))) (shards s)),
                    env := blend st (env s) \<rparr>, es)"
    and len: "length shs' = length (shards s)"
    and each: "\<forall>j<length (shards s). shs' ! j
               = fst (shard_step rnd (timeRef s + 0.01)
                       (player_x (movement st s)) (player_z (movement st s)) j (shards s ! j)
                       (draw_index (rng_next s) (shards s) (player_x (movement st s))
                          (player_z (movement st s)) j))"
    and cnt: "count_list es CollectShard
             = length (filter (\<lambda>sh. planar_dist sh (player_x (movement st s))
                                       (player_z (movement st s)) < 10) (shards s))"
    and only: "set es \<subseteq> {CollectShard}"
    using animate_running [OF tick, of st rnd] by blast
  have px: "player_x s' = player_x (movement st s)" and pz: "player_z s' = player_z (movement st s)"
    and sh: "shards s' = shs'" and ev: "evs = es"
    and rn: "rng_next s' = rng_next s
               + 2 * length (filter (\<lambda>sh. relocates sh (player_x (movement st s))
                                             (player_z (movement st s))) (shards s))"
    unfolding s'_def evs_def an by (simp_all add: movement_def Let_def)
  have kd: "shards s' ! i
      = fst (shard_step rnd (timeRef s + 0.01) (player_x s') (player_z s') i (shards s ! i) kd)"
    using each i unfolding sh px pz kd_def by blast
  have r1: "0 \<le> rnd kd" "rnd kd < 1" "0 \<le> rnd (kd + 1)" "rnd (kd + 1) < 1"
    using rnd by simp_all
  have b1: "\<bar>(rnd kd - 0.5) * 2000\<bar> \<le> 1000" "\<bar>(rnd (kd + 1) - 0.5) * 2000\<bar> \<le> 1000"
    using random_band [of "rnd kd" 1000] random_band [of "rnd (kd + 1)" 1000] r1 by simp_all
  have b2: "\<bar>(rnd kd - 0.5) * 4000\<bar> \<le> 2000" "\<bar>(rnd (kd + 1) - 0.5) * 4000\<bar> \<le> 2000"
    using random_band [of "rnd kd" 2000] random_band [of "rnd (kd + 1)" 2000] r1 by simp_all
  have near: "shard_visible (shards s' ! i) \<and>
            shard_x (shards s' ! i) = player_x s' + (rnd kd - 0.5) * 2000 \<and>
            shard_y (shards s' ! i) = 5 \<and>
            shard_z (shards s' ! i) = player_z s' + (rnd (kd + 1) - 0.5) * 2000 \<and>
            \<bar>shard_x (shards s' ! i) - player_x s'\<bar> \<le> 1000 \<and>
            \<bar>shard_z (shards s' ! i) - player_z s'\<bar> \<le> 1000" if "d < 10"
    using shard_step_near [of "shards s ! i" "player_x s'" "player_z s'" rnd "timeRef s + 0.01" i kd]
      that b1 unfolding d_def kd by simp
  have far: "shard_visible (shards s' ! i) = shard_visible (shards s ! i) \<and>
            shard_x (shards s' ! i) = player_x s' + (rnd kd - 0.5) * 4000 \<and>
            shard_y (shards s' ! i) = 5 \<and>
            shard_z (shards s' ! i) = player_z s' + (rnd (kd + 1) - 0.5) * 4000 \<and>
            \<bar>shard_x (shards s' ! i) - player_x s'\<bar> \<le> 2000 \<and>
            \<bar>shard_z (shards s' ! i) - player_z s'\<bar> \<le> 2000" if "d > 8000"
    using shard_step_far [of "shards s ! i" "player_x s'" "player_z s'" rnd "timeRef s + 0.01" i kd]
      that b2 unfolding d_def kd by simp
  have mid: "shard_visible (shards s' ! i) = shard_visible (shards s ! i) \<and>
            shard_x (shards s' ! i) = shard_x (shards s ! i) \<and>
            shard_z (shards s' ! i) = shard_z (shards s ! i)" if "10 \<le> d" "d \<le> 8000"
    using shard_step_between [of "shards s ! i" "player_x s'" "player_z s'" rnd
        "timeRef s + 0.01" i kd] that unfolding d_def kd by simp
  have evs1: "snd (snd (shard_step rnd (timeRef s') (player_x s') (player_z s') i (shards s ! i) k))
           = (if d < 10 then [CollectShard] else [])"
    unfolding d_def by (rule shard_step_events)
  have cnt': "count_list evs CollectShard
           = length (filter (\<lambda>sh. planar_dist sh (player_x s') (player_z s') < 10) (shards s))"
    unfolding ev px pz by (rule cnt)
  have nogo: "GameOver \<notin> set evs"
    using only unfolding ev by auto
  have rn': "rng_next s' = rng_next s
           + 2 * length (filter (\<lambda>sh. relocates sh (player_x s') (player_z s')) (shards s))"
    unfolding px pz by (rule rn)
  have l1: "length (shards s') = length (shards s)"
    unfolding sh by (rule len)
  show ?thesis
    using near far mid evs1 cnt' nogo rn' l1 run_shards_length [of rnd fs s]
      init_sim_shards [of rnd k0]
    by blast
qed

lemma init_shards_counter: "snd (init_shards rnd n k) = k + 3 * n"
  by (induction n) (simp_all add: case_prod_unfold)

lemma init_shards_nth:
  assumes "i < n"
  shows "fst (init_shards rnd n k) ! i = new_shard rnd (k + 3 * i)"
  using assms
proof (induction n)
  case 0
  then show ?case by simp
next
  case (Suc n)
  show ?case
  proof (cases "i = n")
    case True
    then show ?thesis
      by (simp add: case_prod_unfold nth_append init_shards_length init_shards_counter)
  next
    case False
    with Suc.prems have "i < n" by simp
    then show ?thesis
      using Suc.IH by (simp add: case_prod_unfold nth_append init_shards_length)
  qed
qed

lemma init_sim_fields:
  "player_x (init_sim rnd k) = 0" "player_z (init_sim rnd k) = 0"
  "velocity_x (init_sim rnd k) = 0" "velocity_y (init_sim rnd k) = 0"
  "shards (init_sim rnd k) = fst (init_shards rnd 150 k)"
  "rng_next (init_sim rnd k) = k + 450"
  by (simp_all add: init_sim_def case_prod_unfold init_shards_counter)

lemma animate_player:
  assumes "\<not> isPaused" "distFromCenter s \<le> GAME_OVER_RADIUS"
  shows "player_x (fst (animate isPaused st rnd s)) = player_x (movement st s) \<and>
         player_z (fst (animate isPaused st rnd s)) = player_z (movement st s) \<and>
         velocity_x (fst (animate isPaused st rnd s)) = velocity_x (movement st s) \<and>
         velocity_y (fst (animate isPaused st rnd s)) = velocity_y (movement st s)"
proof -
  obtain shs' k' es where "animate isPaused st rnd s
             = ((movement st (s\<lparr> timeRef := timeRef s + 0.01 \<rparr>))
                  \<lparr> shards := shs', rng_next := k', env := blend st (env s) \<rparr>, es)"
    using animate_running [OF assms, of st rnd] by blast
  then show ?thesis by (simp add: movement_def Let_def)
qed

theorem shard_pickup_witness:
  "shard_x (shards (init_sim (\<lambda>k. 1 / 2) 0) ! 0) = 0 \<and>
   shard_z (shards (init_sim (\<lambda>k. 1 / 2) 0) ! 0) = 0 \<and>
   shard_visible (shards (fst (animate False initial_SystemState
                                 (\<lambda>k. if even k then 1 / 4 else 3 / 4)
                                 (init_sim (\<lambda>k. 1 / 2) 0))) ! 0) \<and>
   shard_x (shards (fst (animate False initial_SystemState
                                 (\<lambda>k. if even k then 1 / 4 else 3 / 4)
                                 (init_sim (\<lambda>k. 1 / 2) 0))) ! 0) = - 500 \<and>
   shard_z (shards (fst (animate False initial_SystemState
                                 (\<lambda>k. if even k then 1 / 4 else 3 / 4)
                                 (init_sim (\<lambda>k. 1 / 2) 0))) ! 0) = 500 \<and>
   length (shards (fst (animate False initial_SystemState
                                 (\<lambda>k. if even k then 1 / 4 else 3 / 4)
                                 (init_sim (\<lambda>k. 1 / 2) 0)))) = 150"
proof -
  let ?rnd = "\<lambda>k::nat. if even k then 1 / 4 else 3 / 4 :: real"
  let ?s = "init_sim (\<lambda>k. 1 / 2) 0"
  let ?s' = "fst (animate False initial_SystemState ?rnd ?s)"
  have tick: "\<not> False" "distFromCenter ?s \<le> GAME_OVER_RADIUS"
    by (simp_all add: distFromCenter_def init_sim_fields GAME_OVER_RADIUS_def)
  have rnd: "\<forall>k. 0 \<le> ?rnd k \<and> ?rnd k < 1" by simp
  have i: "0 < length (shards ?s)" by (simp add: init_sim_shards)
  have p: "player_x ?s' = 0" "player_z ?s' = 0"
    using animate_player [OF tick, of initial_SystemState ?rnd]
    by (simp_all add: movement_def Let_def init_sim_fields turn_def speedZ_cases
          initial_SystemState_def NEUTRAL_SIZE_def SIZE_DEADZONE_def)
  have before: "shard_x (shards ?s ! 0) = 0" "shard_z (shards ?s ! 0) = 0"
    by (simp_all add: init_sim_fields init_shards_nth new_shard_def)
  have d: "planar_dist (shards ?s ! 0) (player_x ?s') (player_z ?s') < 10"
    unfolding p by (simp add: planar_dist_def before)
  have ev: "even (draw_index (rng_next ?s) (shards ?s) (player_x ?s') (player_z ?s') 0)"
    by (simp add: draw_index_def init_sim_fields(6))
  have after: "shard_visible (shards ?s' ! 0) \<and> shard_x (shards ?s' ! 0) = - 500 \<and>
      shard_z (shards ?s' ! 0) = 500 \<and> length (shards ?s') = 150"
    using shard_pickup_and_respawn [OF tick rnd i, of initial_SystemState] d ev
    by (simp add: init_sim_shards p)
  show ?thesis
    using before after by blast
qed

section \<open>Properties of the boundary check\<close>

lemma run_cons:
  "run rnd ((p, st) # fs) s =
     (fst (run rnd fs (fst (animate p st rnd s))),
      snd (animate p st rnd s) @ snd (run rnd fs (fst (animate p st rnd s))))"
  by (simp add: case_prod_unfold)

lemma run_beyond:
  assumes "distFromCenter s > GAME_OVER_RADIUS"
  shows "run rnd fs s =
           (s\<lparr> timeRef := timeRef s + 0.01 * real (length (filter (\<lambda>f. \<not> fst f) fs)) \<rparr>,
            replicate (length (filter (\<lambda>f. \<not> fst f) fs)) GameOver)"
  using assms
proof (induction fs arbitrary: s)
  case Nil
  show ?case by simp
next
  case (Cons f fs)
  obtain p st where f: "f = (p, st)" by (cases f)
  show ?case
  proof (cases p)
    case True
    then show ?thesis
      using Cons.IH [OF Cons.prems] by (simp add: f animate_paused)
  next
    case False
    have an: "animate False st rnd s = (s\<lparr> timeRef := timeRef s + 0.01 \<rparr>, [GameOver])"
      using Cons.prems by (simp add: animate_beyond)
    have "distFromCenter (s\<lparr> timeRef := timeRef s + 0.01 \<rparr>) > GAME_OVER_RADIUS"
      using Cons.prems by simp
    from Cons.IH [OF this] show ?thesis
      using False by (simp add: f an add_divide_distrib algebra_simps)
  qed
qed

lemma animate_within:
  assumes "\<not> isPaused" "distFromCenter s \<le> GAME_OVER_RADIUS"
  shows "GameOver \<notin> set (snd (animate isPaused st rnd s))"
proof -
  obtain shs' k' es where "animate isPaused st rnd s
             = ((movement st (s\<lparr> timeRef := timeRef s + 0.01 \<rparr>))
                  \<lparr> shards := shs', rng_next := k', env := blend st (env s) \<rparr>, es)"
    and "set es \<subseteq> {CollectShard}"
    using animate_running [OF assms, of st rnd] by blast
  then show ?thesis by auto
qed

text \<open>
  Claim C1, as the code has it. A tick that starts with the player at most 8000 from
  the origin signals no game over, even when its own movement carries the player past
  the radius. An unpaused tick that starts with the player farther than
  8000 signals game over exactly once and returns early: it advances the clock and
  nothing else. From such a state on, whatever frames follow, position, velocity,
  shards and environment stay as they are, only the clock advances, and game over is
  signalled once more on every unpaused frame.
\<close>

theorem game_over_signal:
  "(distFromCenter s \<le> GAME_OVER_RADIUS \<longrightarrow>
      GameOver \<notin> set (snd (animate isPaused st rnd s))) \<and>
   (\<not> isPaused \<and> distFromCenter s > GAME_OVER_RADIUS \<longrightarrow>
      animate isPaused st rnd s = (s\<lparr> timeRef := timeRef s + 0.01 \<rparr>, [GameOver])) \<and>
   (distFromCenter s > GAME_OVER_RADIUS \<longrightarrow>
      run rnd fs s =
        (s\<lparr> timeRef := timeRef s + 0.01 * real (length (filter (\<lambda>f. \<not> fst f) fs)) \<rparr>,
         replicate (length (filter (\<lambda>f. \<not> fst f) fs)) GameOver))"
proof -
  have "GameOver \<notin> set (snd (animate isPaused st rnd s))"
    if "distFromCenter s \<le> GAME_OVER_RADIUS"
  proof (cases isPaused)
    case True
    then show ?thesis by (simp add: animate_paused)
  next
    case False
    then show ?thesis using that by (rule animate_within)
  qed
  then show ?thesis
    using animate_beyond [of isPaused s st rnd] run_beyond [of s rnd fs] by blast
qed

theorem game_over_signal_witness:
  "GameOver \<notin> set (snd (animate False initial_SystemState (\<lambda>k. 0) (init_sim (\<lambda>k. 0) 0))) \<and>
   snd (animate False initial_SystemState (\<lambda>k. 0) ((init_sim (\<lambda>k. 0) 0)\<lparr> player_x := 9000 \<rparr>))
     = [GameOver] \<and>
   player_x (fst (run (\<lambda>k. 0)
       [(False, initial_SystemState\<lparr> handPosition_x := 1 \<rparr>), (True, initial_SystemState),
        (False, initial_SystemState\<lparr> handPosition_x := 1 \<rparr>)]
       ((init_sim (\<lambda>k. 0) 0)\<lparr> player_x := 9000 \<rparr>))) = 9000"
proof -
  have a: "distFromCenter (init_sim (\<lambda>k. 0) 0) \<le> GAME_OVER_RADIUS"
    by (simp add: distFromCenter_def init_sim_fields GAME_OVER_RADIUS_def)
  have b: "distFromCenter ((init_sim (\<lambda>k. 0) 0)\<lparr> player_x := 9000 \<rparr>) > GAME_OVER_RADIUS"
    by (simp add: distFromCenter_def init_sim_fields GAME_OVER_RADIUS_def)
  have 1: "GameOver \<notin> set (snd (animate False initial_SystemState (\<lambda>k. 0) (init_sim (\<lambda>k. 0) 0)))"
    using game_over_signal [where isPaused = False and s = "init_sim (\<lambda>k. 0) 0"
        and st = initial_SystemState and rnd = "\<lambda>k. 0"] a
    by blast
  have 2: "snd (animate False initial_SystemState (\<lambda>k. 0)
                  ((init_sim (\<lambda>k. 0) 0)\<lparr> player_x := 9000 \<rparr>)) = [GameOver]"
    using game_over_signal [where isPaused = False
        and s = "(init_sim (\<lambda>k. 0) 0)\<lparr> player_x := 9000 \<rparr>"
        and st = initial_SystemState and rnd = "\<lambda>k. 0"] b
    by simp
  have 3: "player_x (fst (run (\<lambda>k. 0)
       [(False, initial_SystemState\<lparr> handPosition_x := 1 \<rparr>), (True, initial_SystemState),
        (False, initial_SystemState\<lparr> handPosition_x := 1 \<rparr>)]
       ((init_sim (\<lambda>k. 0) 0)\<lparr> player_x := 9000 \<rparr>))) = 9000"
    using game_over_signal [where s = "(init_sim (\<lambda>k. 0) 0)\<lparr> player_x := 9000 \<rparr>"
        and rnd = "\<lambda>k. 0"
        and fs = "[(False, initial_SystemState\<lparr> handPosition_x := 1 \<rparr>), (True, initial_SystemState),
        (False, initial_SystemState\<lparr> handPosition_x := 1 \<rparr>)]"] b
    by simp
  show ?thesis using 1 2 3 by blast
qed

text \<open>
  Claim C1 as stated fails: the signal does not fire exactly once. A player at x = 7999.9
  with lateral velocity 1 is within the radius; the first tick moves it to 8000.44 and
  signals nothing; each of the next two ticks signals game over, so three frames carry
  two game-over signals.
\<close>

theorem game_over_fires_on_every_later_frame:
  "distFromCenter ((init_sim (\<lambda>k. 0) 0)\<lparr> player_x := 7999.9, velocity_x := 1 \<rparr>)
     \<le> GAME_OVER_RADIUS \<and>
   count_list (snd (run (\<lambda>k. 0)
       [(False, initial_SystemState)]
       ((init_sim (\<lambda>k. 0) 0)\<lparr> player_x := 7999.9, velocity_x := 1 \<rparr>))) GameOver = 0 \<and>
   distFromCenter (fst (run (\<lambda>k. 0)
       [(False, initial_SystemState)]
       ((init_sim (\<lambda>k. 0) 0)\<lparr> player_x := 7999.9, velocity_x := 1 \<rparr>))) > GAME_OVER_RADIUS \<and>
   count_list (snd (run (\<lambda>k. 0)
       [(False, initial_SystemState), (False, initial_SystemState), (False, initial_SystemState)]
       ((init_sim (\<lambda>k. 0) 0)\<lparr> player_x := 7999.9, velocity_x := 1 \<rparr>))) GameOver = 2"
proof -
  let ?rnd = "\<lambda>k::nat. 0::real"
  let ?st = initial_SystemState
  let ?s0 = "(init_sim ?rnd 0)\<lparr> player_x := 7999.9, velocity_x := 1 \<rparr>"
  let ?s1 = "fst (animate False ?st ?rnd ?s0)"
  let ?e1 = "snd (animate False ?st ?rnd ?s0)"
  have a: "distFromCenter ?s0 \<le> GAME_OVER_RADIUS"
    by (simp add: distFromCenter_def init_sim_fields GAME_OVER_RADIUS_def)
  have e1: "GameOver \<notin> set ?e1"
    using a by (simp add: animate_within)
  have p: "player_x ?s1 = 8000.44" "player_z ?s1 = 0"
    using animate_player [of False ?s0 ?st ?rnd] a
    by (simp_all add: movement_def Let_def init_sim_fields turn_def speedZ_cases moveSpeed_def
          initial_SystemState_def NEUTRAL_SIZE_def SIZE_DEADZONE_def)
  have b: "distFromCenter ?s1 > GAME_OVER_RADIUS"
    by (simp add: distFromCenter_def p GAME_OVER_RADIUS_def)
  have r1: "run ?rnd [(False, ?st)] ?s0 = (?s1, ?e1)"
    by (simp add: case_prod_unfold)
  have r2: "snd (run ?rnd [(False, ?st), (False, ?st)] ?s1) = [GameOver, GameOver]"
    using run_beyond [OF b, of ?rnd "[(False, ?st), (False, ?st)]"]
    by (simp add: numeral_2_eq_2)
  have r3: "snd (run ?rnd [(False, ?st), (False, ?st), (False, ?st)] ?s0)
              = ?e1 @ [GameOver, GameOver]"
    using r2 by (simp only: run_cons snd_conv)
  have c1: "count_list ?e1 GameOver = 0"
    using e1 by (simp add: count_list_0_iff)
  show ?thesis
    unfolding r3 r1 using a b c1 by simp
qed

section \<open>Properties of the shop state\<close>

lemma initial_ids_distinct: "distinct (map item_id INITIAL_STORE_ITEMS)"
  by (simp add: INITIAL_STORE_ITEMS_def)

lemma filter_same_key:
  assumes "distinct (map f xs)" "x \<in> set xs"
  shows "filter (\<lambda>i. f i = f x) xs = [x]"
  using assms
proof (induction xs)
  case Nil
  then show ?case by simp
next
  case (Cons a xs)
  show ?case
  proof (cases "a = x")
    case True
    have "\<forall>i\<in>set xs. f i \<noteq> f x"
      using Cons.prems(1) True by (auto simp: image_iff)
    then have "filter (\<lambda>i. f i = f x) xs = []"
      by (simp add: filter_empty_conv)
    then show ?thesis using True by simp
  next
    case False
    then have "x \<in> set xs" using Cons.prems(2) by simp
    moreover have "f a \<noteq> f x"
      using Cons.prems(1) \<open>x \<in> set xs\<close> by (auto simp: image_iff)
    ultimately show ?thesis using Cons by simp
  qed
qed

lemma same_id_same_item:
  assumes "distinct (map item_id xs)" "x \<in> set xs" "i \<in> set xs" "item_id i = item_id x"
  shows "i = x"
  using assms by (meson distinct_map inj_onD)

lemma handleEquip_map:
  assumes "unlocked item"
  shows "handleEquip item xs =
           map (\<lambda>i. if item_type i = item_type item
                     then i\<lparr> active := (item_id i = item_id item) \<rparr> else i) xs"
proof -
  have "item_type item = skin \<or> item_type item = companion"
    by (cases "item_type item") simp_all
  then show ?thesis
    using assms by (auto simp: handleEquip_def)
qed

lemma handleEquip_ids [simp]: "map item_id (handleEquip item xs) = map item_id xs"
  by (simp add: handleEquip_def comp_def)

lemma handleEquip_types [simp]: "map item_type (handleEquip item xs) = map item_type xs"
  by (simp add: handleEquip_def comp_def)

lemma handleEquip_count:
  assumes "distinct (map item_id xs)" "item \<in> set xs" "unlocked item"
  shows "active_count ty (handleEquip item xs) =
           (if ty = item_type item then 1 else active_count ty xs)"
proof (cases "ty = item_type item")
  case True
  have "filter (\<lambda>i. item_type i = ty \<and> active i) (handleEquip item xs)
          = map (\<lambda>i. i\<lparr> active := True \<rparr>)
              (filter (\<lambda>i. item_type i = item_type item \<and> item_id i = item_id item) xs)"
    unfolding handleEquip_map [OF assms(3)] True
    by (induction xs) auto
  also have "filter (\<lambda>i. item_type i = item_type item \<and> item_id i = item_id item) xs
          = filter (\<lambda>i. item_id i = item_id item) xs"
    using same_id_same_item [OF assms(1,2)] by (intro filter_cong) auto
  also have "\<dots> = [item]"
    using assms(1,2) by (rule filter_same_key)
  finally show ?thesis using True by (simp add: active_count_def)
next
  case False
  have "filter (\<lambda>i. item_type i = ty \<and> active i) (handleEquip item xs)
          = filter (\<lambda>i. item_type i = ty \<and> active i) xs"
    unfolding handleEquip_map [OF assms(3)] using False
    by (induction xs) auto
  then show ?thesis using False by (simp add: active_count_def)
qed

lemma handlePurchase_inv:
  assumes "shop_inv (xp, xs)"
  shows "shop_inv (handlePurchase item (xp, xs))"
proof -
  let ?f = "\<lambda>i. if item_id i = item_id item then i\<lparr> unlocked := True \<rparr> else i"
  have a: "map item_id (map ?f xs) = map item_id xs" "map item_type (map ?f xs) = map item_type xs"
    by (induction xs) auto
  have b: "filter (\<lambda>i. item_type i = ty \<and> active i) (map ?f xs)
             = map ?f (filter (\<lambda>i. item_type i = ty \<and> active i) xs)" for ty
    by (induction xs) auto
  have c: "active_count ty (map ?f xs) = active_count ty xs" for ty
    unfolding active_count_def b by simp
  show ?thesis
    using assms a c by (auto simp: handlePurchase_def shop_inv_def simp del: map_map)
qed

lemma handleEquip_inv:
  assumes "shop_inv (xp, xs)" "item \<in> set xs"
  shows "shop_inv (xp, handleEquip item xs)"
proof (cases "unlocked item")
  case False
  then show ?thesis using assms by (simp add: handleEquip_def)
next
  case True
  have d: "distinct (map item_id xs)"
    using assms(1) initial_ids_distinct by (simp add: shop_inv_def)
  have "item_type item = skin \<or> item_type item = companion"
    by (cases "item_type item") simp_all
  then show ?thesis
    using assms(1) handleEquip_count [OF d assms(2) True]
    by (auto simp: shop_inv_def)
qed

lemma initial_inv: "shop_inv (0, INITIAL_STORE_ITEMS)"
  by (simp add: shop_inv_def active_count_def INITIAL_STORE_ITEMS_def)

lemma reachable_inv: "reachable st \<Longrightarrow> shop_inv st"
proof (induction rule: reachable.induct)
  case init
  show ?case by (rule initial_inv)
next
  case (collect xp storeItems)
  then show ?case by (simp add: shop_inv_def)
next
  case (purchase xp storeItems item)
  then show ?case by (simp add: handlePurchase_inv)
next
  case (equip xp storeItems item)
  then show ?case by (simp add: handleEquip_inv)
qed

lemma active_count_one:
  assumes "active_count ty xs = 1"
  shows "\<exists>i\<in>set xs. item_type i = ty \<and> active i \<and>
           find (\<lambda>i. item_type i = ty \<and> active i) xs = Some i"
proof -
  have "filter (\<lambda>i. item_type i = ty \<and> active i) xs \<noteq> []"
    using assms by (auto simp: active_count_def)
  then obtain i where "find (\<lambda>i. item_type i = ty \<and> active i) xs = Some i"
    by (cases "find (\<lambda>i. item_type i = ty \<and> active i) xs")
       (auto simp: find_None_iff filter_empty_conv)
  then show ?thesis
    by (auto simp: find_Some_iff)
qed

lemma shop_inv_ids_nonempty:
  assumes "shop_inv (xp, xs)" "i \<in> set xs"
  shows "item_id i \<noteq> []"
proof -
  have eq: "map item_id xs = map item_id INITIAL_STORE_ITEMS"
    using assms(1) by (simp add: shop_inv_def)
  have "item_id i \<in> set (map item_id xs)" using assms(2) by simp
  then have "item_id i \<in> set (map item_id INITIAL_STORE_ITEMS)"
    unfolding eq .
  then show ?thesis by (auto simp: INITIAL_STORE_ITEMS_def)
qed

lemma handleEquip_selects:
  assumes "distinct (map item_id xs)" "item \<in> set xs" "unlocked item"
  shows "handleEquip item xs =
           map (\<lambda>i. if item_type i = item_type item then i\<lparr> active := (i = item) \<rparr> else i) xs"
proof -
  have "(item_id i = item_id item) = (i = item)" if "i \<in> set xs" for i
    using same_id_same_item [OF assms(1,2) that] by auto
  then show ?thesis
    unfolding handleEquip_map [OF assms(3)] by (intro map_cong) simp_all
qed

lemma filter_single:
  assumes "length (filter P xs) = 1" "x \<in> set xs" "P x" "y \<in> set xs" "P y"
  shows "x = y"
proof -
  obtain a where a: "filter P xs = [a]"
    using assms(1) by (cases "filter P xs") auto
  have "x \<in> set (filter P xs)" "y \<in> set (filter P xs)"
    using assms by simp_all
  then show ?thesis unfolding a by simp
qed

lemma handleEquip_active_unchanged:
  assumes inv: "shop_inv (xp, xs)" and item: "item \<in> set xs" "active item"
  shows "handleEquip item xs = xs"
proof (cases "unlocked item")
  case False
  then show ?thesis by (simp add: handleEquip_def)
next
  case True
  have d: "distinct (map item_id xs)"
    using inv initial_ids_distinct by (simp add: shop_inv_def)
  have one: "length (filter (\<lambda>i. item_type i = item_type item \<and> active i) xs) = 1"
    using inv by (cases "item_type item") (simp_all add: shop_inv_def active_count_def)
  have "(if item_type i = item_type item then i\<lparr> active := (i = item) \<rparr> else i) = i"
    if "i \<in> set xs" for i
  proof (cases "item_type i = item_type item")
    case False
    then show ?thesis by simp
  next
    case same: True
    have "active i \<longleftrightarrow> i = item"
      using filter_single [OF one that _ item(1)] same item(2) by auto
    then show ?thesis using same by simp
  qed
  then show ?thesis
    unfolding handleEquip_selects [OF d item(1) True] by (simp add: map_idI)
qed

text \<open>
  Claim C10. The initial store has one active skin and one active companion, and so has
  every shop state reached from it by pickups, purchases and equips of items of the
  store. There the two selectors return the id of an active item of their type. Equipping
  an unlocked item of the store makes it the active one among the items of its type and
  leaves the items of the other type as they are.
\<close>

theorem one_active_item_per_type:
  assumes "reachable (xp, storeItems)"
  shows "active_count skin INITIAL_STORE_ITEMS = 1 \<and>
         active_count companion INITIAL_STORE_ITEMS = 1 \<and>
         active_count skin storeItems = 1 \<and>
         active_count companion storeItems = 1 \<and>
         (\<exists>i\<in>set storeItems. item_type i = skin \<and> active i \<and> activeSkin storeItems = item_id i) \<and>
         (\<exists>i\<in>set storeItems. item_type i = companion \<and> active i \<and>
              activeCompanion storeItems = item_id i) \<and>
         (item \<in> set storeItems \<and> unlocked item \<longrightarrow>
            handleEquip item storeItems =
              map (\<lambda>i. if item_type i = item_type item then i\<lparr> active := (i = item) \<rparr> else i)
                storeItems)"
proof -
  have inv: "shop_inv (xp, storeItems)"
    using assms by (rule reachable_inv)
  have d: "distinct (map item_id storeItems)"
    using inv initial_ids_distinct by (simp add: shop_inv_def)
  have c: "active_count skin storeItems = 1" "active_count companion storeItems = 1"
    using inv by (simp_all add: shop_inv_def)
  have c0: "active_count skin INITIAL_STORE_ITEMS = 1"
    "active_count companion INITIAL_STORE_ITEMS = 1"
    using initial_inv by (simp_all add: shop_inv_def)
  obtain i where i: "i \<in> set storeItems" "item_type i = skin" "active i"
    "find (\<lambda>i. item_type i = skin \<and> active i) storeItems = Some i"
    using active_count_one [OF c(1)] by blast
  have "activeSkin storeItems = item_id i"
    using shop_inv_ids_nonempty [OF inv i(1)] by (simp add: activeSkin_def i(4))
  with i have s: "\<exists>i\<in>set storeItems. item_type i = skin \<and> active i \<and>
      activeSkin storeItems = item_id i"
    by blast
  obtain j where j: "j \<in> set storeItems" "item_type j = companion" "active j"
    "find (\<lambda>i. item_type i = companion \<and> active i) storeItems = Some j"
    using active_count_one [OF c(2)] by blast
  have "activeCompanion storeItems = item_id j"
    using shop_inv_ids_nonempty [OF inv j(1)] by (simp add: activeCompanion_def j(4))
  with j have k: "\<exists>i\<in>set storeItems. item_type i = companion \<and> active i \<and>
      activeCompanion storeItems = item_id i"
    by blast
  have e: "handleEquip item storeItems =
              map (\<lambda>i. if item_type i = item_type item then i\<lparr> active := (i = item) \<rparr> else i)
                storeItems" if "item \<in> set storeItems" "unlocked item"
    using handleEquip_selects [OF d that] .
  show ?thesis using c c0 s k e by blast
qed

theorem one_active_item_witness:
  "active_count skin
     (handleEquip
        (snd (handlePurchase (INITIAL_STORE_ITEMS ! 1) (handleCollectShard 0, INITIAL_STORE_ITEMS)) ! 1)
        (snd (handlePurchase (INITIAL_STORE_ITEMS ! 1) (handleCollectShard 0, INITIAL_STORE_ITEMS))))
     = 1 \<and>
   activeSkin
     (handleEquip
        (snd (handlePurchase (INITIAL_STORE_ITEMS ! 1) (handleCollectShard 0, INITIAL_STORE_ITEMS)) ! 1)
        (snd (handlePurchase (INITIAL_STORE_ITEMS ! 1) (handleCollectShard 0, INITIAL_STORE_ITEMS))))
     = ''skin_cube''"
proof -
  let ?s2 = "handlePurchase (INITIAL_STORE_ITEMS ! 1) (handleCollectShard 0, INITIAL_STORE_ITEMS)"
  have r1: "reachable (handleCollectShard 0, INITIAL_STORE_ITEMS)"
    by (intro reachable.collect reachable.init)
  have "INITIAL_STORE_ITEMS ! 1 \<in> set INITIAL_STORE_ITEMS"
    by (simp add: INITIAL_STORE_ITEMS_def)
  with r1 have r2: "reachable ?s2"
    by (rule reachable.purchase)
  have len: "length (snd ?s2) = 6"
    by (simp add: handlePurchase_def INITIAL_STORE_ITEMS_def handleCollectShard_def)
  have m: "snd ?s2 ! 1 \<in> set (snd ?s2)"
    using len by (intro nth_mem) simp
  have "reachable (fst ?s2, snd ?s2)" using r2 by simp
  then have r3: "reachable (fst ?s2, handleEquip (snd ?s2 ! 1) (snd ?s2))"
    using m by (rule reachable.equip)
  have a: "activeSkin (handleEquip (snd ?s2 ! 1) (snd ?s2)) = ''skin_cube''"
    by (simp add: handlePurchase_def INITIAL_STORE_ITEMS_def handleCollectShard_def
          handleEquip_def activeSkin_def)
  show ?thesis
    using one_active_item_per_type [OF r3] a by blast
qed

section \<open>Properties of the cosmetic subtrees\<close>

lemma skin_mesh_is_Mesh [simp]: "is_Mesh (skin_mesh sk)"
  by (simp add: skin_mesh_def)

lemma remove_children_empty [simp]: "remove_children cs = []"
  by (induction cs) simp_all

lemma updatePlayerMesh_init:
  "updatePlayerMesh sk (Some [PointLight c i d]) = Some [PointLight c i d, skin_mesh sk]"
  by (simp add: updatePlayerMesh_def)

lemma updatePlayerMesh_rebuild:
  "updatePlayerMesh sk (Some [PointLight c i d, skin_mesh sk'])
     = Some [PointLight c i d, skin_mesh sk]"
  by (simp add: updatePlayerMesh_def)

lemma updateCompanionMesh_Some:
  "updateCompanionMesh co (Some cs) = Some (companion_children co)"
  by (simp add: updateCompanionMesh_def)

lemma scene_after_snoc:
  "scene_after s0 (ss @ [s]) = cosmetics_effect s (scene_after s0 ss)"
  by (simp add: scene_after_def)

lemma scene_after_shape:
  "scene_after s0 ss =
     (Some [PointLight 0xffaa00 2 60, skin_mesh (activeSkin (last (s0 # ss)))],
      Some (companion_children (activeCompanion (last (s0 # ss)))))"
proof (induction ss rule: rev_induct)
  case Nil
  show ?case
    by (simp add: scene_after_def init_groups_def updatePlayerMesh_init updateCompanionMesh_Some)
next
  case (snoc s ss)
  show ?case
    unfolding scene_after_snoc snoc.IH
    by (simp add: cosmetics_effect_def updatePlayerMesh_rebuild updateCompanionMesh_Some)
qed

lemma cosmetics_effect_shape:
  "cosmetics_effect s (scene_after s0 ss) =
     (Some [PointLight 0xffaa00 2 60, skin_mesh (activeSkin s)],
      Some (companion_children (activeCompanion s)))"
  unfolding scene_after_shape
  by (simp add: cosmetics_effect_def updatePlayerMesh_rebuild updateCompanionMesh_Some)

text \<open>
  Claim C9. In a reachable shop state, equipping the item that is already active leaves
  the store, and so both selectors, unchanged. Running the rebuild effect again for the
  same selectors gives the groups it replaces: the player group is its light and the one
  mesh of the active skin, the companion group is exactly the children of the active
  companion variant, whatever selections came before. A group that is not built yet
  stays unbuilt.
\<close>

theorem reselecting_active_variant_is_idempotent:
  assumes "reachable (xp, storeItems)" "item \<in> set storeItems" "active item"
  shows "handleEquip item storeItems = storeItems \<and>
         activeSkin (handleEquip item storeItems) = activeSkin storeItems \<and>
         activeCompanion (handleEquip item storeItems) = activeCompanion storeItems \<and>
         cosmetics_effect (handleEquip item storeItems)
             (cosmetics_effect storeItems (scene_after s0 ss))
           = cosmetics_effect storeItems (scene_after s0 ss) \<and>
         fst (cosmetics_effect storeItems (scene_after s0 ss))
           = Some [PointLight 0xffaa00 2 60, skin_mesh (activeSkin storeItems)] \<and>
         length (filter is_Mesh [PointLight 0xffaa00 2 60, skin_mesh (activeSkin storeItems)]) = 1 \<and>
         snd (cosmetics_effect storeItems (scene_after s0 ss))
           = Some (companion_children (activeCompanion storeItems)) \<and>
         updatePlayerMesh sk None = None \<and> updateCompanionMesh co None = None"
proof -
  have same: "handleEquip item storeItems = storeItems"
    using reachable_inv [OF assms(1)] assms(2,3) by (rule handleEquip_active_unchanged)
  have again: "cosmetics_effect storeItems (cosmetics_effect storeItems (scene_after s0 ss))
           = cosmetics_effect storeItems (scene_after s0 ss)"
    unfolding cosmetics_effect_shape
    by (simp add: cosmetics_effect_def updatePlayerMesh_rebuild updateCompanionMesh_Some)
  show ?thesis
    unfolding same using again
    by (simp add: cosmetics_effect_shape updatePlayerMesh_def updateCompanionMesh_def)
qed

theorem reselecting_active_variant_witness:
  "handleEquip (INITIAL_STORE_ITEMS ! 3) INITIAL_STORE_ITEMS = INITIAL_STORE_ITEMS \<and>
   cosmetics_effect (handleEquip (INITIAL_STORE_ITEMS ! 3) INITIAL_STORE_ITEMS)
       (cosmetics_effect INITIAL_STORE_ITEMS (scene_after INITIAL_STORE_ITEMS []))
     = cosmetics_effect INITIAL_STORE_ITEMS (scene_after INITIAL_STORE_ITEMS []) \<and>
   snd (cosmetics_effect INITIAL_STORE_ITEMS (scene_after INITIAL_STORE_ITEMS []))
     = Some (companion_children ''comp_butterfly'')"
proof -
  have m: "INITIAL_STORE_ITEMS ! 3 \<in> set INITIAL_STORE_ITEMS"
    and a: "active (INITIAL_STORE_ITEMS ! 3)"
    and c: "activeCompanion INITIAL_STORE_ITEMS = ''comp_butterfly''"
    by (simp_all add: INITIAL_STORE_ITEMS_def activeCompanion_def)
  show ?thesis
    using reselecting_active_variant_is_idempotent [OF reachable.init m a,
        of INITIAL_STORE_ITEMS "[]"]
    unfolding c by blast
qed

section \<open>Properties of the field generator\<close>

lemma fill_loop:
  assumes F: "\<And>hi lo k j. F (hi, lo, k) j
                = (setMatrixAt hi j (dummy_matrix rnd k), setMatrixAt lo j (dummy_matrix rnd k), k + 4)"
    and "length (im_matrices hi0) = n" "length (im_matrices lo0) = n" "m \<le> n"
  shows "\<exists>mh ml.
           foldl F (hi0, lo0, k0) [0..<m]
             = (hi0\<lparr> im_matrices := mh \<rparr>, lo0\<lparr> im_matrices := ml \<rparr>, k0 + 4 * m) \<and>
           length mh = n \<and> length ml = n \<and>
           (\<forall>j<m. mh ! j = Some (dummy_matrix rnd (k0 + 4 * j)) \<and>
                  ml ! j = Some (dummy_matrix rnd (k0 + 4 * j)))"
  using assms(4)
proof (induction m)
  case 0
  have "(hi0, lo0, k0) = (hi0\<lparr> im_matrices := im_matrices hi0 \<rparr>,
                          lo0\<lparr> im_matrices := im_matrices lo0 \<rparr>, k0 + 4 * 0)"
    by simp
  then show ?case
    using assms(2,3) by (intro exI [of _ "im_matrices hi0"] exI [of _ "im_matrices lo0"]) simp
next
  case (Suc m)
  then have "m \<le> n" by simp
  from Suc.IH [OF this] obtain mh ml where
    loop: "foldl F (hi0, lo0, k0) [0..<m]
             = (hi0\<lparr> im_matrices := mh \<rparr>, lo0\<lparr> im_matrices := ml \<rparr>, k0 + 4 * m)"
    and len: "length mh = n" "length ml = n"
    and filled: "\<forall>j<m. mh ! j = Some (dummy_matrix rnd (k0 + 4 * j)) \<and>
                  ml ! j = Some (dummy_matrix rnd (k0 + 4 * j))"
    by blast
  let ?x = "Some (dummy_matrix rnd (k0 + 4 * m))"
  have step: "foldl F (hi0, lo0, k0) [0..<Suc m]
             = (hi0\<lparr> im_matrices := mh[m := ?x] \<rparr>, lo0\<lparr> im_matrices := ml[m := ?x] \<rparr>,
                k0 + 4 * Suc m)"
    by (simp add: loop F setMatrixAt_def)
  have m: "m < n" using Suc.prems by simp
  have "\<forall>j<Suc m. mh[m := ?x] ! j = Some (dummy_matrix rnd (k0 + 4 * j)) \<and>
                  ml[m := ?x] ! j = Some (dummy_matrix rnd (k0 + 4 * j))"
    using filled m len by (auto simp: nth_list_update less_Suc_eq)
  then show ?case
    using step len by (intro exI [of _ "mh[m := ?x]"] exI [of _ "ml[m := ?x]"]) simp
qed

lemma fill_instances_result:
  assumes "im_matrices hi0 = replicate INSTANCES_PER_CHUNK None"
          "im_matrices lo0 = replicate INSTANCES_PER_CHUNK None"
  shows "\<exists>ms. fill_instances rnd (hi0, lo0, k0)
                = (hi0\<lparr> im_matrices := ms \<rparr>, lo0\<lparr> im_matrices := ms \<rparr>,
                   k0 + 4 * INSTANCES_PER_CHUNK) \<and>
              length ms = INSTANCES_PER_CHUNK \<and> None \<notin> set ms"
proof -
  let ?n = INSTANCES_PER_CHUNK
  obtain mh ml where
    loop: "fill_instances rnd (hi0, lo0, k0)
             = (hi0\<lparr> im_matrices := mh \<rparr>, lo0\<lparr> im_matrices := ml \<rparr>, k0 + 4 * ?n)"
    and len: "length mh = ?n" "length ml = ?n"
    and filled: "\<forall>j<?n. mh ! j = Some (dummy_matrix rnd (k0 + 4 * j)) \<and>
                  ml ! j = Some (dummy_matrix rnd (k0 + 4 * j))"
    unfolding fill_instances_def
    using fill_loop [of "\<lambda>(hi, lo, k) j.
              let m = dummy_matrix rnd k in (setMatrixAt hi j m, setMatrixAt lo j m, k + 4)"
            rnd hi0 ?n lo0 ?n k0] assms
    by (auto simp: Let_def)
  have eq: "ml = mh"
    using len filled by (intro nth_equalityI) simp_all
  have "None \<notin> set mh"
    using len filled by (auto simp: in_set_conv_nth)
  then show ?thesis using loop len eq by blast
qed

lemma make_chunk_result:
  "\<exists>ms. fst (make_chunk rnd k x z) =
          \<lparr> chunk_x = x * CHUNK_SIZE + CHUNK_SIZE div 2,
            chunk_z = z * CHUNK_SIZE + CHUNK_SIZE div 2,
            meshHigh = \<lparr> im_geometry = grassGeoHigh, im_count = INSTANCES_PER_CHUNK,
                         im_matrices = ms, castShadow = True, receiveShadow = True \<rparr>,
            meshLow = \<lparr> im_geometry = grassGeoLow, im_count = INSTANCES_PER_CHUNK,
                        im_matrices = ms, castShadow = False, receiveShadow = True \<rparr>,
            level_high = 0, level_low = 2000 \<rparr> \<and>
        length ms = INSTANCES_PER_CHUNK \<and> None \<notin> set ms"
proof -
  let ?hi0 = "(new_InstancedMesh grassGeoHigh INSTANCES_PER_CHUNK)
                  \<lparr> castShadow := True, receiveShadow := True \<rparr>"
  let ?lo0 = "(new_InstancedMesh grassGeoLow INSTANCES_PER_CHUNK)
                  \<lparr> castShadow := False, receiveShadow := True \<rparr>"
  obtain ms where
    f: "fill_instances rnd (?hi0, ?lo0, k)
          = (?hi0\<lparr> im_matrices := ms \<rparr>, ?lo0\<lparr> im_matrices := ms \<rparr>, k + 4 * INSTANCES_PER_CHUNK)"
    and ms: "length ms = INSTANCES_PER_CHUNK" "None \<notin> set ms"
    using fill_instances_result [of ?hi0 ?lo0 rnd k] by (auto simp: new_InstancedMesh_def)
  show ?thesis
    using ms f by (intro exI [of _ ms]) (simp add: make_chunk_def Let_def new_InstancedMesh_def)
qed

lemma make_chunk_center:
  "chunk_x (fst (make_chunk rnd k x z)) = center x \<and> chunk_z (fst (make_chunk rnd k x z)) = center z"
  using make_chunk_result [of rnd k x z] by (auto simp: center_def)

lemma inner_loop:
  assumes G: "\<And>cs k z. G (cs, k) z
                = (cs @ [fst (make_chunk rnd k x z)], snd (make_chunk rnd k x z))"
  shows "\<exists>cs' k'. foldl G (cs, k) zs = (cs @ cs', k') \<and>
           map (\<lambda>c. (chunk_x c, chunk_z c)) cs' = map (\<lambda>z. (center x, center z)) zs \<and>
           (\<forall>c\<in>set cs'. \<exists>k x z. c = fst (make_chunk rnd k x z))"
proof (induction zs arbitrary: cs k)
  case Nil
  show ?case by simp
next
  case (Cons z zs)
  let ?c = "fst (make_chunk rnd k x z)"
  obtain cs' k' where
    a: "foldl G (cs @ [?c], snd (make_chunk rnd k x z)) zs = ((cs @ [?c]) @ cs', k')"
    and b: "map (\<lambda>c. (chunk_x c, chunk_z c)) cs' = map (\<lambda>z. (center x, center z)) zs"
    and c: "\<forall>c\<in>set cs'. \<exists>k x z. c = fst (make_chunk rnd k x z)"
    using Cons.IH by blast
  have "foldl G (cs, k) (z # zs) = (cs @ (?c # cs'), k')"
    using a by (simp add: G)
  moreover have "map (\<lambda>c. (chunk_x c, chunk_z c)) (?c # cs')
                   = map (\<lambda>z. (center x, center z)) (z # zs)"
    using b by (simp add: make_chunk_center)
  moreover have "\<forall>c\<in>set (?c # cs'). \<exists>k x z. c = fst (make_chunk rnd k x z)"
    using c by auto
  ultimately show ?case by blast
qed

lemma outer_loop:
  assumes G: "\<And>x cs k z. G x (cs, k) z
                = (cs @ [fst (make_chunk rnd k x z)], snd (make_chunk rnd k x z))"
  shows "\<exists>cs' k'. foldl (\<lambda>acc x. foldl (G x) acc zs) (cs, k) xs = (cs @ cs', k') \<and>
           map (\<lambda>c. (chunk_x c, chunk_z c)) cs'
             = concat (map (\<lambda>x. map (\<lambda>z. (center x, center z)) zs) xs) \<and>
           (\<forall>c\<in>set cs'. \<exists>k x z. c = fst (make_chunk rnd k x z))"
proof (induction xs arbitrary: cs k)
  case Nil
  show ?case by simp
next
  case (Cons x xs)
  obtain c1 k1 where
    a1: "foldl (G x) (cs, k) zs = (cs @ c1, k1)"
    and b1: "map (\<lambda>c. (chunk_x c, chunk_z c)) c1 = map (\<lambda>z. (center x, center z)) zs"
    and d1: "\<forall>c\<in>set c1. \<exists>k x z. c = fst (make_chunk rnd k x z)"
    using inner_loop [where G = "G x" and rnd = rnd and x = x and cs = cs and k = k and zs = zs] G
    by blast
  obtain c2 k2 where
    a2: "foldl (\<lambda>acc x. foldl (G x) acc zs) (cs @ c1, k1) xs = ((cs @ c1) @ c2, k2)"
    and b2: "map (\<lambda>c. (chunk_x c, chunk_z c)) c2
               = concat (map (\<lambda>x. map (\<lambda>z. (center x, center z)) zs) xs)"
    and d2: "\<forall>c\<in>set c2. \<exists>k x z. c = fst (make_chunk rnd k x z)"
    using Cons.IH by blast
  have "foldl (\<lambda>acc x. foldl (G x) acc zs) (cs, k) (x # xs) = (cs @ (c1 @ c2), k2)"
    using a1 a2 by simp
  moreover have "map (\<lambda>c. (chunk_x c, chunk_z c)) (c1 @ c2)
                   = concat (map (\<lambda>x. map (\<lambda>z. (center x, center z)) zs) (x # xs))"
    using b1 b2 by simp
  moreover have "\<forall>c\<in>set (c1 @ c2). \<exists>k x z. c = fst (make_chunk rnd k x z)"
    using d1 d2 by auto
  ultimately show ?case by blast
qed

lemma concat_product:
  "concat (map (\<lambda>x. map (\<lambda>z. f x z) zs) xs) = map (\<lambda>(x, z). f x z) (List.product xs zs)"
  by (induction xs) (simp_all add: comp_def)

lemma chunks_centers:
  "map (\<lambda>c. (chunk_x c, chunk_z c)) (chunks rnd)
     = map (\<lambda>(x, z). (center x, center z))
         (List.product [- halfGrid..halfGrid - 1] [- halfGrid..halfGrid - 1])"
  and chunks_made: "\<forall>c\<in>set (chunks rnd). \<exists>k x z. c = fst (make_chunk rnd k x z)"
proof -
  let ?G = "\<lambda>x (chunks, k) z. case make_chunk rnd k x z of (lod, k') \<Rightarrow> (chunks @ [lod], k')"
  have G: "?G x (cs, k) z = (cs @ [fst (make_chunk rnd k x z)], snd (make_chunk rnd k x z))"
    for x cs k z
    by (simp add: case_prod_unfold)
  obtain cs' k' where
    a: "foldl (\<lambda>acc x. foldl (?G x) acc [- halfGrid..halfGrid - 1]) ([], 0)
          [- halfGrid..halfGrid - 1] = ([] @ cs', k')"
    and b: "map (\<lambda>c. (chunk_x c, chunk_z c)) cs'
             = concat (map (\<lambda>x. map (\<lambda>z. (center x, center z)) [- halfGrid..halfGrid - 1])
                 [- halfGrid..halfGrid - 1])"
    and c: "\<forall>c\<in>set cs'. \<exists>k x z. c = fst (make_chunk rnd k x z)"
    using outer_loop [where G = ?G and rnd = rnd and cs = "[]" and k = 0
        and zs = "[- halfGrid..halfGrid - 1]" and xs = "[- halfGrid..halfGrid - 1]"] G
    by blast
  have eq: "chunks rnd = cs'"
    using a by (simp add: chunks_def gen_chunks_def)
  show "map (\<lambda>c. (chunk_x c, chunk_z c)) (chunks rnd)
     = map (\<lambda>(x, z). (center x, center z))
         (List.product [- halfGrid..halfGrid - 1] [- halfGrid..halfGrid - 1])"
    unfolding eq b by (rule concat_product)
  show "\<forall>c\<in>set (chunks rnd). \<exists>k x z. c = fst (make_chunk rnd k x z)"
    unfolding eq by (rule c)
qed

lemma grid_constants:
  "halfGrid = 30" "CHUNK_SIZE = 2000" "WORLD_EXTENT = 60000" "TOTAL_CHUNKS_SIDE = 60"
  by (simp_all add: halfGrid_def TOTAL_CHUNKS_SIDE_def WORLD_EXTENT_def CHUNK_SIZE_def)

lemma center_inj: "inj center"
  by (rule injI) (simp add: center_def grid_constants)

lemma centers_distinct:
  "distinct (map (\<lambda>(x, z). (center x, center z))
       (List.product [- halfGrid..halfGrid - 1] [- halfGrid..halfGrid - 1]))"
proof -
  have "inj (\<lambda>(x, z). (center x, center z))"
    using center_inj by (auto simp: inj_def)
  then have "inj_on (\<lambda>(x, z). (center x, center z))
               (set (List.product [- halfGrid..halfGrid - 1] [- halfGrid..halfGrid - 1]))"
    by (rule inj_on_subset) simp
  then show ?thesis
    by (simp add: distinct_map distinct_product)
qed

lemma chunks_length: "length (chunks rnd) = 3600"
proof -
  have "length (chunks rnd) = length (map (\<lambda>c. (chunk_x c, chunk_z c)) (chunks rnd))"
    by simp
  also have "\<dots> = 3600"
    unfolding chunks_centers by (simp add: grid_constants)
  finally show ?thesis .
qed

lemma cell_of_point:
  fixes p :: real
  assumes "real_of_int (center a) - real_of_int CHUNK_SIZE / 2 \<le> p"
          "p < real_of_int (center a) + real_of_int CHUNK_SIZE / 2"
  shows "a = \<lfloor>p / 2000\<rfloor>"
proof -
  have "real_of_int a \<le> p / 2000" "p / 2000 < real_of_int a + 1"
    using assms by (simp_all add: center_def grid_constants field_simps)
  then show ?thesis by linarith
qed

lemma point_in_cell:
  fixes p :: real
  shows "real_of_int (center \<lfloor>p / 2000\<rfloor>) - real_of_int CHUNK_SIZE / 2 \<le> p \<and>
         p < real_of_int (center \<lfloor>p / 2000\<rfloor>) + real_of_int CHUNK_SIZE / 2"
proof -
  have "real_of_int \<lfloor>p / 2000\<rfloor> \<le> p / 2000" "p / 2000 < real_of_int \<lfloor>p / 2000\<rfloor> + 1"
    by linarith+
  then show ?thesis
    by (simp add: center_def grid_constants field_simps)
qed

lemma cell_in_range:
  fixes p :: real
  shows "- real_of_int WORLD_EXTENT \<le> p \<and> p < real_of_int WORLD_EXTENT
           \<longleftrightarrow> \<lfloor>p / 2000\<rfloor> \<in> {- halfGrid..halfGrid - 1}"
proof -
  have "- 60000 \<le> p \<longleftrightarrow> - 30 \<le> \<lfloor>p / 2000\<rfloor>"
    by (simp add: le_floor_iff field_simps)
  moreover have "p < 60000 \<longleftrightarrow> \<lfloor>p / 2000\<rfloor> < 30"
    by (simp add: floor_less_iff field_simps)
  ultimately show ?thesis
    by (auto simp: grid_constants)
qed

lemma chunk_center_nth:
  assumes "i < length (chunks rnd)"
  shows "\<exists>a b. a \<in> {- halfGrid..halfGrid - 1} \<and> b \<in> {- halfGrid..halfGrid - 1} \<and>
           chunk_x (chunks rnd ! i) = center a \<and> chunk_z (chunks rnd ! i) = center b"
proof -
  let ?cs = "map (\<lambda>c. (chunk_x c, chunk_z c)) (chunks rnd)"
  have "?cs ! i \<in> set ?cs"
    using assms by (intro nth_mem) simp
  then have "?cs ! i \<in> (\<lambda>(x, z). (center x, center z)) `
               ({- halfGrid..halfGrid - 1} \<times> {- halfGrid..halfGrid - 1})"
    unfolding chunks_centers by simp
  then obtain a b where ab: "a \<in> {- halfGrid..halfGrid - 1}" "b \<in> {- halfGrid..halfGrid - 1}"
    "?cs ! i = (center a, center b)"
    by auto
  have "?cs ! i = (chunk_x (chunks rnd ! i), chunk_z (chunks rnd ! i))"
    using assms by simp
  with ab(3) have "chunk_x (chunks rnd ! i) = center a" "chunk_z (chunks rnd ! i) = center b"
    by simp_all
  with ab(1,2) show ?thesis by blast
qed

lemma chunk_covers_world_part:
  assumes "i < length (chunks rnd)" "in_chunk (chunks rnd ! i) px pz"
  shows "in_world px pz \<and>
         chunk_x (chunks rnd ! i) = center \<lfloor>px / 2000\<rfloor> \<and>
         chunk_z (chunks rnd ! i) = center \<lfloor>pz / 2000\<rfloor>"
proof -
  obtain a b where ab: "a \<in> {- halfGrid..halfGrid - 1}" "b \<in> {- halfGrid..halfGrid - 1}"
    "chunk_x (chunks rnd ! i) = center a" "chunk_z (chunks rnd ! i) = center b"
    using chunk_center_nth [OF assms(1)] by blast
  have a: "a = \<lfloor>px / 2000\<rfloor>"
    using assms(2) unfolding in_chunk_def ab by (intro cell_of_point) simp_all
  have b: "b = \<lfloor>pz / 2000\<rfloor>"
    using assms(2) unfolding in_chunk_def ab by (intro cell_of_point) simp_all
  show ?thesis
    using ab cell_in_range [of px] cell_in_range [of pz] unfolding a b in_world_def by simp
qed

lemma world_point_has_chunk:
  assumes "in_world px pz"
  shows "\<exists>i<length (chunks rnd). in_chunk (chunks rnd ! i) px pz"
proof -
  let ?cs = "map (\<lambda>c. (chunk_x c, chunk_z c)) (chunks rnd)"
  have "\<lfloor>px / 2000\<rfloor> \<in> {- halfGrid..halfGrid - 1}" "\<lfloor>pz / 2000\<rfloor> \<in> {- halfGrid..halfGrid - 1}"
    using assms cell_in_range [of px] cell_in_range [of pz] by (simp_all add: in_world_def)
  then have "(\<lfloor>px / 2000\<rfloor>, \<lfloor>pz / 2000\<rfloor>)
               \<in> set (List.product [- halfGrid..halfGrid - 1] [- halfGrid..halfGrid - 1])"
    by simp
  then have "(\<lambda>(x, z). (center x, center z)) (\<lfloor>px / 2000\<rfloor>, \<lfloor>pz / 2000\<rfloor>)
               \<in> set (map (\<lambda>(x, z). (center x, center z))
                       (List.product [- halfGrid..halfGrid - 1] [- halfGrid..halfGrid - 1]))"
    unfolding set_map by (rule imageI)
  then have "(center \<lfloor>px / 2000\<rfloor>, center \<lfloor>pz / 2000\<rfloor>) \<in> set ?cs"
    unfolding chunks_centers by simp
  then obtain i where i: "i < length ?cs" "?cs ! i = (center \<lfloor>px / 2000\<rfloor>, center \<lfloor>pz / 2000\<rfloor>)"
    by (auto simp: in_set_conv_nth)
  then have "chunk_x (chunks rnd ! i) = center \<lfloor>px / 2000\<rfloor>"
    "chunk_z (chunks rnd ! i) = center \<lfloor>pz / 2000\<rfloor>"
    by simp_all
  then have "in_chunk (chunks rnd ! i) px pz"
    using point_in_cell [of px] point_in_cell [of pz] by (simp add: in_chunk_def)
  then show ?thesis using i(1) by auto
qed

lemma chunk_unique:
  assumes "i < length (chunks rnd)" "in_chunk (chunks rnd ! i) px pz"
          "j < length (chunks rnd)" "in_chunk (chunks rnd ! j) px pz"
  shows "i = j"
proof -
  let ?cs = "map (\<lambda>c. (chunk_x c, chunk_z c)) (chunks rnd)"
  have eq: "?cs ! i = ?cs ! j"
    using chunk_covers_world_part [OF assms(1,2)] chunk_covers_world_part [OF assms(3,4)] assms(1,3)
    by simp
  have "distinct ?cs"
    unfolding chunks_centers by (rule centers_distinct)
  then have "(?cs ! i = ?cs ! j) = (i = j)"
    using assms(1,3) by (intro nth_eq_iff_index_eq) simp_all
  with eq show ?thesis by (simp only:)
qed

text \<open>
  Claim C8. The generator builds 60 by 60 chunks whose centres do not depend on the
  random draws. Their half-open tiles partition the square world extent: a point of the
  extent lies in the tile of exactly one chunk, and every tile lies in the extent. In
  every chunk both batches have the configured 5000 instances, every matrix slot is
  filled, and the two batches hold the same transforms slot by slot. The low batch is
  the high batch with the geometry of 1 height segment in place of 3 and, as a level of
  detail, with shadow casting off.
\<close>

theorem field_generator_tiles_world:
  "length (chunks rnd) = nat (TOTAL_CHUNKS_SIDE * TOTAL_CHUNKS_SIDE) \<and>
   map (\<lambda>c. (chunk_x c, chunk_z c)) (chunks rnd) = map (\<lambda>c. (chunk_x c, chunk_z c)) (chunks rnd') \<and>
   (in_world px pz \<longrightarrow> (\<exists>!i. i < length (chunks rnd) \<and> in_chunk (chunks rnd ! i) px pz)) \<and>
   (i < length (chunks rnd) \<and> in_chunk (chunks rnd ! i) px pz \<longrightarrow> in_world px pz) \<and>
   (c \<in> set (chunks rnd) \<longrightarrow>
      im_count (meshHigh c) = INSTANCES_PER_CHUNK \<and>
      im_count (meshLow c) = INSTANCES_PER_CHUNK \<and>
      length (im_matrices (meshHigh c)) = INSTANCES_PER_CHUNK \<and>
      None \<notin> set (im_matrices (meshHigh c)) \<and>
      im_matrices (meshLow c) = im_matrices (meshHigh c) \<and>
      im_geometry (meshHigh c) = grassGeoHigh \<and>
      im_geometry (meshLow c) = grassGeoLow \<and>
      meshLow c = (meshHigh c)\<lparr> im_geometry := grassGeoLow, castShadow := False \<rparr>) \<and>
   grassGeoLow = grassGeoHigh\<lparr> geo_heightSegments := 1 \<rparr> \<and>
   geo_heightSegments grassGeoHigh = 3"
proof -
  have a: "length (chunks rnd) = nat (TOTAL_CHUNKS_SIDE * TOTAL_CHUNKS_SIDE)"
    by (simp add: chunks_length grid_constants)
  have b: "map (\<lambda>c. (chunk_x c, chunk_z c)) (chunks rnd)
             = map (\<lambda>c. (chunk_x c, chunk_z c)) (chunks rnd')"
    by (simp only: chunks_centers)
  have c: "\<exists>!i. i < length (chunks rnd) \<and> in_chunk (chunks rnd ! i) px pz" if "in_world px pz"
    using world_point_has_chunk [OF that, of rnd] chunk_unique [of _ rnd px pz] by blast
  have d: "in_world px pz" if "i < length (chunks rnd)" "in_chunk (chunks rnd ! i) px pz"
    using chunk_covers_world_part [OF that] by simp
  have e: "im_count (meshHigh c) = INSTANCES_PER_CHUNK \<and>
      im_count (meshLow c) = INSTANCES_PER_CHUNK \<and>
      length (im_matrices (meshHigh c)) = INSTANCES_PER_CHUNK \<and>
      None \<notin> set (im_matrices (meshHigh c)) \<and>
      im_matrices (meshLow c) = im_matrices (meshHigh c) \<and>
      im_geometry (meshHigh c) = grassGeoHigh \<and>
      im_geometry (meshLow c) = grassGeoLow \<and>
      meshLow c = (meshHigh c)\<lparr> im_geometry := grassGeoLow, castShadow := False \<rparr>" if cin: "c \<in> set (chunks rnd)"
  proof -
    obtain k x z where "c = fst (make_chunk rnd k x z)"
      using chunks_made [of rnd] cin by blast
    then show ?thesis
      using make_chunk_result [of rnd k x z] by auto
  qed
  have f: "grassGeoLow = grassGeoHigh\<lparr> geo_heightSegments := 1 \<rparr>"
    "geo_heightSegments grassGeoHigh = 3"
    by (simp_all add: grassGeoLow_def grassGeoHigh_def)
  show ?thesis using a b c d e f by blast
qed

theorem field_generator_witness:
  "(\<exists>!i. i < length (chunks (\<lambda>k. 0)) \<and> in_chunk (chunks (\<lambda>k. 0) ! i) 0 0) \<and>
   length (chunks (\<lambda>k. 0)) = 3600 \<and>
   im_matrices (meshLow (chunks (\<lambda>k. 0) ! 0)) = im_matrices (meshHigh (chunks (\<lambda>k. 0) ! 0)) \<and>
   length (im_matrices (meshHigh (chunks (\<lambda>k. 0) ! 0))) = 5000"
proof -
  have w: "in_world 0 0"
    by (simp add: in_world_def WORLD_EXTENT_def)
  have l: "length (chunks (\<lambda>k. 0)) = 3600"
    using field_generator_tiles_world [of "\<lambda>k. 0"]
    by (simp add: TOTAL_CHUNKS_SIDE_def WORLD_EXTENT_def CHUNK_SIZE_def)
  then have m: "chunks (\<lambda>k. 0) ! 0 \<in> set (chunks (\<lambda>k. 0))"
    by (intro nth_mem) simp
  show ?thesis
    using field_generator_tiles_world [of "\<lambda>k. 0" _ 0 0 _ "chunks (\<lambda>k. 0) ! 0"] w l m
    by (simp add: INSTANCES_PER_CHUNK_def)
qed

end
